theory Spec2Isabelle
  imports Complex_Main
begin

section \<open>The D2Q9 lattice and the simulation state\<close>

text \<open>
  The embedding follows \<^verbatim>\<open>LBM.py\<close>. numpy arrays of floats are lists of reals (exact
  arithmetic), a two-dimensional array is a list of rows indexed first by \<open>x\<close> (axis 0) and then
  by \<open>y\<close> (axis 1), and the distribution field is a list of rows of cells of nine populations.
\<close>

definition Q :: nat where
  "Q = 9"

definition c :: "(int \<times> int) list" where
  "c = [(0, 0), (1, 0), (0, 1), (-1, 0), (0, -1), (1, 1), (-1, 1), (-1, -1), (1, -1)]"

definition w :: "real list" where
  "w = [4/9, 1/9, 1/9, 1/9, 1/9, 1/36, 1/36, 1/36, 1/36]"

definition susceptible_centroids :: "(int \<times> int) list" where
  "susceptible_centroids = [(18, 93), (79, 80), (79, 51), (80, 26), (49, 5)]"

datatype error =
    AssertionError "nat \<times> nat \<times> nat"
  | ZeroDivisionError
  | ValueError
  | IndexError

record lbm =
  width :: nat
  height :: nat
  map_scaling_factor :: real
  wall :: "bool list list"
  inlet :: "bool list list"
  outlet :: "bool list list"
  infected :: "bool list list"
  susceptible :: "bool list list"
  cssq :: real
  tau :: real
  u_lb :: real
  rho :: "real list list"
  ux :: "real list list"
  uy :: "real list list"
  f :: "real list list list"
  spawn_rate :: nat
  spawn_amount_at_rate :: nat
  num_particles :: nat
  particle_nr :: nat
  particle_locations :: "(real \<times> real) list"
  infections :: "real list list"
  removed :: "real list"
  particles_exited :: "nat set"
  stdout :: "string list"

subsection \<open>Array helpers\<close>

text \<open>\<^verbatim>\<open>np.zeros((n, m))\<close>.\<close>

definition zeros :: "nat \<Rightarrow> nat \<Rightarrow> real list list" where
  "zeros n m = replicate n (replicate m 0)"

text \<open>The column assignment \<^verbatim>\<open>a[:, i] = col\<close>.\<close>

definition set_column :: "nat \<Rightarrow> 'a list \<Rightarrow> 'a list list \<Rightarrow> 'a list list" where
  "set_column i col a = map2 (\<lambda>row v. row[i := v]) a col"

subsection \<open>Equilibrium\<close>

text \<open>
  \<^verbatim>\<open>get_equilibrium(self, n, rho, ux, uy)\<close> on flat arrays of length \<open>n\<close>: first the
  array \<open>udotc\<close> is filled column by column, then \<open>f_eq\<close>. A scalar argument of the source
  (broadcast by numpy) is passed as a constant list.
\<close>

definition get_equilibrium ::
  "lbm \<Rightarrow> nat \<Rightarrow> real list \<Rightarrow> real list \<Rightarrow> real list \<Rightarrow> real list list" where
  "get_equilibrium self n rho_v ux_v uy_v =
     (let udotu = map2 (\<lambda>a b. a * a + b * b) ux_v uy_v;
          udotc = fold (\<lambda>i acc. set_column i
                     (map2 (\<lambda>a b. a * real_of_int (fst (c ! i)) + b * real_of_int (snd (c ! i)))
                        ux_v uy_v) acc)
                    [0..<Q] (zeros n Q);
          f_eq = fold (\<lambda>i acc. set_column i
                     (map (\<lambda>k. w ! i * rho_v ! k *
                               (1 + udotc ! k ! i / cssq self
                                  + (udotc ! k ! i)\<^sup>2 / (2 * (cssq self)\<^sup>2)
                                  - udotu ! k / (2 * cssq self)))
                        [0..<n]) acc)
                    [0..<Q] (zeros n 9)
      in f_eq)"

text \<open>The formula of the specification for one cell and one direction, with \<open>cssq = 1/3\<close>.\<close>

definition f_eq_spec :: "real \<Rightarrow> real \<Rightarrow> real \<Rightarrow> nat \<Rightarrow> real" where
  "f_eq_spec \<rho> u_x u_y i =
     (let cu = real_of_int (fst (c ! i)) * u_x + real_of_int (snd (c ! i)) * u_y;
          uu = u_x\<^sup>2 + u_y\<^sup>2;
          cs = 1 / 3
      in w ! i * \<rho> * (1 + cu / cs + cu\<^sup>2 / (2 * cs\<^sup>2) - uu / (2 * cs)))"

subsection \<open>Moments, flattening and reshaping\<close>

text \<open>\<^verbatim>\<open>np.where(mask)\<close>: the index pairs of the true cells, in row-major order.\<close>

definition np_where :: "bool list list \<Rightarrow> (nat \<times> nat) list" where
  "np_where m =
     concat (map (\<lambda>x. map (\<lambda>y. (x, y)) (filter (\<lambda>y. m ! x ! y) [0..<length (m ! x)]))
               [0..<length m])"

text \<open>
  \<^verbatim>\<open>moment_update(f)\<close>: density and velocity of every cell. At a cell of density zero
  numpy divides by zero and stores a NaN or an infinity in \<open>ux\<close> and \<open>uy\<close>; the reals have no
  such value, so the quotient of the model carries no meaning at these cells. \<open>nan_cells\<close> lists
  them, and \<open>lbm_iteration\<close>, which always aborts when there is one, reports them with the
  state it leaves behind.
\<close>

definition moment_update ::
  "real list list list \<Rightarrow> real list list \<times> real list list \<times> real list list" where
  "moment_update g =
     (let rho' = map (map sum_list) g;
          ux' = map2 (map2 (\<lambda>cell r. sum_list (map2 (\<lambda>ci v. real_of_int (fst ci) * v) c cell) / r))
                  g rho';
          uy' = map2 (map2 (\<lambda>cell r. sum_list (map2 (\<lambda>ci v. real_of_int (snd ci) * v) c cell) / r))
                  g rho'
      in (rho', ux', uy'))"

definition nan_cells :: "real list list \<Rightarrow> (nat \<times> nat) list" where
  "nan_cells rho_g = np_where (map (map (\<lambda>r. r = 0)) rho_g)"

text \<open>\<^verbatim>\<open>a.flatten()\<close> is \<^const>\<open>concat\<close>; \<^verbatim>\<open>a.reshape((W, H, ...))\<close> cuts a flat array
  into \<open>W\<close> rows of \<open>H\<close> entries.\<close>

definition reshape :: "nat \<Rightarrow> nat \<Rightarrow> 'a list \<Rightarrow> 'a list list" where
  "reshape W H xs = map (\<lambda>x. take H (drop (x * H) xs)) [0..<W]"

subsection \<open>Minimum, first minimal index, unravelling\<close>

fun first_index :: "('a \<Rightarrow> bool) \<Rightarrow> 'a list \<Rightarrow> nat" where
  "first_index P [] = 0"
| "first_index P (x # xs) = (if P x then 0 else Suc (first_index P xs))"

text \<open>\<^verbatim>\<open>np.min\<close> raises on an empty array (\<open>None\<close>); \<^verbatim>\<open>np.argmin\<close> returns the first
  index of the minimum.\<close>

definition np_min :: "('a::linorder) list \<Rightarrow> 'a option" where
  "np_min xs = (case xs of [] \<Rightarrow> None | x # ys \<Rightarrow> Some (fold min ys x))"

definition np_argmin :: "('a::linorder) list \<Rightarrow> nat option" where
  "np_argmin xs = (case np_min xs of None \<Rightarrow> None | Some m \<Rightarrow> Some (first_index (\<lambda>v. v = m) xs))"

definition unravel_index :: "nat \<Rightarrow> nat \<times> nat \<times> nat \<Rightarrow> nat \<times> nat \<times> nat" where
  "unravel_index k shape =
     (case shape of (d0, d1, d2) \<Rightarrow> (k div (d1 * d2), (k div d2) mod d1, k mod d2))"

subsection \<open>Collision and streaming\<close>

text \<open>\<^verbatim>\<open>self.f * (1 - (1 / self.tau)) + (1 / self.tau) * f_eq\<close>, elementwise.\<close>

definition collision :: "real \<Rightarrow> real list list list \<Rightarrow> real list list list \<Rightarrow> real list list list" where
  "collision t g g_eq = map2 (map2 (map2 (\<lambda>a b. a * (1 - (1 / t)) + (1 / t) * b))) g g_eq"

text \<open>
  \<^verbatim>\<open>np.roll(a, shift, axis)\<close> along one axis, as numpy implements it: the offset is
  \<open>shift mod n\<close> (or \<open>shift mod 1\<close> for an empty array), the last \<open>offset\<close> entries move to the
  front. With two axes, each axis is rolled by its own shift.
\<close>

definition np_roll :: "'a list \<Rightarrow> int \<Rightarrow> 'a list" where
  "np_roll a shift =
     (let n = length a;
          offset = nat (shift mod int (if n = 0 then 1 else n))
      in if offset = 0 then a else drop (n - offset) a @ take (n - offset) a)"

definition np_roll2 :: "'a list list \<Rightarrow> int \<times> int \<Rightarrow> 'a list list" where
  "np_roll2 a shift = map (\<lambda>row. np_roll row (snd shift)) (np_roll a (fst shift))"

text \<open>The slice \<^verbatim>\<open>f[:, :, i]\<close> and the assignment \<^verbatim>\<open>f[:, :, i] = v\<close>.\<close>

definition get_dir :: "nat \<Rightarrow> 'a list list list \<Rightarrow> 'a list list" where
  "get_dir i g = map (map (\<lambda>cell. cell ! i)) g"

definition set_dir :: "nat \<Rightarrow> 'a list list \<Rightarrow> 'a list list list \<Rightarrow> 'a list list list" where
  "set_dir i v g = map2 (map2 (\<lambda>cell x. cell[i := x])) g v"

definition streaming :: "real list list list \<Rightarrow> real list list list" where
  "streaming g = fold (\<lambda>i acc. set_dir i (np_roll2 (get_dir i acc) (c ! i)) acc) [0..<Q] g"

subsection \<open>Boolean masks\<close>

text \<open>
  \<^verbatim>\<open>a[mask]\<close> gathers the entries at the true positions in row-major order;
  \<^verbatim>\<open>a[mask] = vals\<close> writes \<open>vals\<close> back to these positions in the same order (numpy raises
  when the number of values differs from the number of true positions; every use below passes
  as many values as it gathered); \<^verbatim>\<open>a[mask] = v\<close> with a scalar writes \<open>v\<close> to each of them.
\<close>

definition mask_get :: "bool list list \<Rightarrow> 'a list list \<Rightarrow> 'a list" where
  "mask_get m a = map snd (filter fst (zip (concat m) (concat a)))"

fun mask_set_flat :: "bool list \<Rightarrow> 'a list \<Rightarrow> 'a list \<Rightarrow> 'a list" where
  "mask_set_flat (b # bs) (x # xs) vals =
     (if b then (case vals of [] \<Rightarrow> x # mask_set_flat bs xs []
                 | v # vs \<Rightarrow> v # mask_set_flat bs xs vs)
      else x # mask_set_flat bs xs vals)"
| "mask_set_flat [] xs vals = xs"
| "mask_set_flat bs [] vals = []"

definition mask_set :: "nat \<Rightarrow> nat \<Rightarrow> bool list list \<Rightarrow> 'a list list \<Rightarrow> 'a list \<Rightarrow> 'a list list" where
  "mask_set W H m a vals = reshape W H (mask_set_flat (concat m) (concat a) vals)"

definition mask_fill :: "bool list list \<Rightarrow> 'a list list \<Rightarrow> 'a \<Rightarrow> 'a list list" where
  "mask_fill m a v = map2 (map2 (\<lambda>b x. if b then v else x)) m a"

subsection \<open>Boundaries\<close>

text \<open>The bounce-back block of \<^verbatim>\<open>lbm_iteration\<close>.\<close>

definition bounce_back :: "lbm \<Rightarrow> lbm" where
  "bounce_back self =
     (let self1 = self\<lparr>ux := mask_fill (wall self) (ux self) 0\<rparr>;
          self2 = self1\<lparr>uy := mask_fill (wall self1) (uy self1) 0\<rparr>;
          boundary_f = mask_get (wall self2) (f self2);
          boundary_f' = map (\<lambda>cell. map (\<lambda>j. cell ! j) [0, 3, 4, 1, 2, 7, 8, 5, 6]) boundary_f
      in self2\<lparr>f := mask_set (width self2) (height self2) (wall self2) (f self2) boundary_f'\<rparr>)"

text \<open>The default handlers \<^verbatim>\<open>LBM.inlet_handler(model, it)\<close> and
  \<^verbatim>\<open>LBM.outlet_handler(model)\<close>.\<close>

definition inlet_handler :: "lbm \<Rightarrow> nat \<Rightarrow> lbm" where
  "inlet_handler model it =
     (let inlet_ux = u_lb model;
          inlet_uy = 0;
          inlet_rho = map (\<lambda>_. 1) (mask_get (inlet model) (rho model));
          n = length inlet_rho
      in model\<lparr>f := mask_set (width model) (height model) (inlet model) (f model)
                      (get_equilibrium model n inlet_rho (replicate n inlet_ux)
                         (replicate n inlet_uy))\<rparr>)"

definition outlet_handler :: "lbm \<Rightarrow> lbm" where
  "outlet_handler model =
     (let outlet_rho = mask_get (outlet model) (rho model);
          outlet_ux = mask_get (outlet model) (ux model);
          outlet_uy = mask_get (outlet model) (uy model)
      in model\<lparr>f := mask_set (width model) (height model) (outlet model) (f model)
                      (get_equilibrium model (length outlet_ux) outlet_rho outlet_ux
                         outlet_uy)\<rparr>)"

subsection \<open>One iteration\<close>

text \<open>
  The stability assertion \<^verbatim>\<open>assert np.min(f_eq) >= 0\<close> fails when the minimum is negative
  and also when it is a NaN, which numpy produces exactly at the cells of density zero (there
  \<open>ux\<close> and \<open>uy\<close> are a division by zero, and population 0 of the cell is a NaN). The message
  carries \<^verbatim>\<open>np.unravel_index(np.argmin(f_eq), f_eq.shape)\<close>; \<^verbatim>\<open>np.argmin\<close> returns the
  first NaN when there is one.
\<close>

definition failing_index :: "real list \<Rightarrow> real list \<Rightarrow> nat option" where
  "failing_index rho_flat eq_flat =
     (if 0 \<in> set rho_flat then Some (Q * first_index (\<lambda>r. r = 0) rho_flat)
      else np_argmin eq_flat)"

text \<open>
  The first two blocks of \<^verbatim>\<open>lbm_iteration\<close>: the moment update, which overwrites
  \<open>rho\<close>, \<open>ux\<close> and \<open>uy\<close> of the model, and the equilibrium of the flattened moments,
  reshaped to the grid.
\<close>

definition update_moments :: "lbm \<Rightarrow> lbm" where
  "update_moments self =
     (case moment_update (f self) of
        (rho', ux', uy') \<Rightarrow> self\<lparr>rho := rho', ux := ux', uy := uy'\<rparr>)"

definition equilibrium_field :: "lbm \<Rightarrow> real list list list" where
  "equilibrium_field self =
     reshape (width self) (height self)
       (get_equilibrium self (width self * height self)
          (concat (rho self)) (concat (ux self)) (concat (uy self)))"

text \<open>
  \<^verbatim>\<open>lbm_iteration(self, it)\<close> with the two handlers of the model as parameters. An
  exception leaves the object as it is at that moment: the error comes with that state and
  with the list of the cells at which \<open>ux\<close> and \<open>uy\<close> of the object are not numbers (the
  entries of the state's \<open>ux\<close> and \<open>uy\<close> at these cells are placeholders).
\<close>

definition lbm_iteration ::
  "(lbm \<Rightarrow> nat \<Rightarrow> lbm) \<Rightarrow> (lbm \<Rightarrow> lbm) \<Rightarrow> lbm \<Rightarrow> nat
     \<Rightarrow> (error \<times> lbm \<times> (nat \<times> nat) list) + lbm" where
  "lbm_iteration ih oh self it =
     (let self1 = update_moments self;
          f_eq = equilibrium_field self1;
          eq_flat = concat (concat f_eq)
      in case np_min eq_flat of
           None \<Rightarrow> Inl (ValueError, self1, nan_cells (rho self1))
         | Some m \<Rightarrow>
             if 0 \<in> set (concat (rho self1)) \<or> \<not> 0 \<le> m
             then Inl (AssertionError
                         (unravel_index (the (failing_index (concat (rho self1)) eq_flat))
                            (width self1, height self1, Q)),
                       self1, nan_cells (rho self1))
             else if tau self1 = 0 then Inl (ZeroDivisionError, self1, nan_cells (rho self1))
             else
               let self2 = self1\<lparr>f := collision (tau self1) (f self1) f_eq\<rparr>;
                   self3 = self2\<lparr>f := streaming (f self2)\<rparr>;
                   self4 = bounce_back self3;
                   self5 = ih self4 it;
                   self6 = oh self5
               in Inr self6)"

subsection \<open>Particles\<close>

text \<open>Python's \<^verbatim>\<open>round\<close> rounds a half to the even neighbour; \<^verbatim>\<open>int\<close> truncates
  towards zero.\<close>

definition py_round :: "real \<Rightarrow> int" where
  "py_round x =
     (let fl = \<lfloor>x\<rfloor>; d = x - of_int fl
      in if d < 1/2 then fl else if 1/2 < d then fl + 1 else if even fl then fl else fl + 1)"

definition py_int :: "real \<Rightarrow> int" where
  "py_int x = (if 0 \<le> x then \<lfloor>x\<rfloor> else \<lceil>x\<rceil>)"

text \<open>Indexing \<^verbatim>\<open>a[i]\<close> and \<^verbatim>\<open>a[i, j]\<close>: a negative index counts from the end, an index
  out of range raises.\<close>

definition np_index :: "'a list \<Rightarrow> int \<Rightarrow> error + 'a" where
  "np_index xs i =
     (if 0 \<le> i \<and> i < int (length xs) then Inr (xs ! nat i)
      else if i < 0 \<and> - int (length xs) \<le> i then Inr (xs ! nat (int (length xs) + i))
      else Inl IndexError)"

definition np_index2 :: "'a list list \<Rightarrow> int \<Rightarrow> int \<Rightarrow> error + 'a" where
  "np_index2 a i j = (case np_index a i of Inl e \<Rightarrow> Inl e | Inr row \<Rightarrow> np_index row j)"

text \<open>
  \<^verbatim>\<open>RegularGridInterpolator((np.arange(W), np.arange(H)), values)([x, y])[0]\<close>: bilinear
  interpolation on the integer grid, a \<^verbatim>\<open>ValueError\<close> outside of it. The interval of \<open>x\<close>
  is found as scipy does (\<^verbatim>\<open>searchsorted(grid, x) - 1\<close>, clipped to \<open>0 .. n - 2\<close>). The
  model is meant for grids of at least two points per axis.
\<close>

definition grid_interval :: "nat \<Rightarrow> real \<Rightarrow> nat" where
  "grid_interval n x = nat (max 0 (min (\<lceil>x\<rceil> - 1) (int n - 2)))"

definition interpolate :: "nat \<Rightarrow> nat \<Rightarrow> real list list \<Rightarrow> real \<Rightarrow> real \<Rightarrow> error + real" where
  "interpolate W H vals x y =
     (if x < 0 \<or> real W - 1 < x \<or> y < 0 \<or> real H - 1 < y then Inl ValueError
      else
        let i = grid_interval W x; j = grid_interval H y;
            tx = x - real i; ty = y - real j
        in Inr ((1 - tx) * (1 - ty) * vals ! i ! j
                + (1 - tx) * ty * vals ! i ! (j + 1)
                + tx * (1 - ty) * vals ! (i + 1) ! j
                + tx * ty * vals ! (i + 1) ! (j + 1)))"

text \<open>
  The spawning loop of \<^verbatim>\<open>update_particles\<close>. The random source is a parameter: \<open>rnd k\<close> is
  the entropy used for particle number \<open>k\<close>, and \<^verbatim>\<open>np.random.randint(n)\<close> is \<open>rnd k mod n\<close>
  (every value below \<open>n\<close> can be drawn); \<^verbatim>\<open>randint(0)\<close> raises.
\<close>

fun spawn_loop :: "nat \<Rightarrow> (nat \<Rightarrow> nat) \<Rightarrow> lbm \<Rightarrow> error + lbm" where
  "spawn_loop 0 rnd self = Inr self"
| "spawn_loop (Suc k) rnd self =
     (if particle_nr self < num_particles self then
        (let infected_indices = np_where (infected self)
         in if infected_indices = [] then Inl ValueError
            else
              let idx = rnd (particle_nr self) mod length infected_indices
              in if particle_nr self < length (particle_locations self) then
                   spawn_loop k rnd
                     (self\<lparr>particle_locations := (particle_locations self)
                              [particle_nr self := (real (fst (infected_indices ! idx)),
                                                    real (snd (infected_indices ! idx)))],
                            particle_nr := particle_nr self + 1\<rparr>)
                 else Inl IndexError)
      else spawn_loop k rnd self)"

text \<open>
  The body of the \<^verbatim>\<open>try\<close> block: the node of the particle is its truncated position, the
  closest centroid is the first minimum of the squared distances, and its counter in column
  \<open>i\<close> is incremented. \<open>None\<close> stands for any exception raised there (no centroid at all, or an
  index outside of \<open>infections\<close>).
\<close>

definition dist_2 :: "(int \<times> int) list \<Rightarrow> int \<times> int \<Rightarrow> int list" where
  "dist_2 nodes node = map (\<lambda>p. (fst p - fst node)\<^sup>2 + (snd p - snd node)\<^sup>2) nodes"

definition closest_node :: "(int \<times> int) list \<Rightarrow> int \<times> int \<Rightarrow> nat option" where
  "closest_node nodes node = np_argmin (dist_2 nodes node)"

definition record_infection :: "(int \<times> int) list \<Rightarrow> lbm \<Rightarrow> nat \<Rightarrow> real \<Rightarrow> real \<Rightarrow> lbm option" where
  "record_infection nodes self i x y =
     (case closest_node nodes (py_int x, py_int y) of
        None \<Rightarrow> None
      | Some closest \<Rightarrow>
          if closest < length (infections self) \<and> i < length (infections self ! closest)
          then Some (self\<lparr>infections := (infections self)
                       [closest := (infections self ! closest)
                          [i := infections self ! closest ! i + 1]]\<rparr>)
          else None)"

text \<open>The body of the loop over the particles, for particle \<open>i\<close>.\<close>

definition particle_step :: "(int \<times> int) list \<Rightarrow> lbm \<Rightarrow> nat \<Rightarrow> error + lbm" where
  "particle_step nodes self i =
     (if length (particle_locations self) \<le> i then Inl IndexError
      else
        case particle_locations self ! i of (x, y) \<Rightarrow>
          if i \<in> particles_exited self then Inr self
          else
            case np_index2 (susceptible self) (py_round x) (py_round y) of
              Inl e \<Rightarrow> Inl e
            | Inr True \<Rightarrow>
                let self1 = (case record_infection nodes self i x y of
                               Some s \<Rightarrow> s
                             | None \<Rightarrow> self\<lparr>stdout := stdout self @ [''Idk!!!!!!!'']\<rparr>)
                in Inr (self1\<lparr>particles_exited := insert i (particles_exited self1),
                              particle_locations := (particle_locations self1)[i := (0, 0)]\<rparr>)
            | Inr False \<Rightarrow>
                (case np_index2 (outlet self) (py_round x) (py_round y) of
                   Inl e \<Rightarrow> Inl e
                 | Inr True \<Rightarrow>
                     if i < length (removed self) then
                       Inr (self\<lparr>removed := (removed self)[i := removed self ! i + 1],
                                  particles_exited := insert i (particles_exited self),
                                  particle_locations := (particle_locations self)[i := (0, 0)]\<rparr>)
                     else Inl IndexError
                 | Inr False \<Rightarrow>
                     (case interpolate (width self) (height self) (ux self) x y of
                        Inl e \<Rightarrow> Inl e
                      | Inr dx0 \<Rightarrow>
                          (case interpolate (width self) (height self) (uy self) x y of
                             Inl e \<Rightarrow> Inl e
                           | Inr dy0 \<Rightarrow>
                               let speed_factor = map_scaling_factor self;
                                   dx = speed_factor * dx0;
                                   dy = speed_factor * dy0;
                                   new_x = min (max 0 (x + dx)) (real (width self) - 1);
                                   new_y = min (max 0 (y + dy)) (real (height self) - 1)
                               in Inr (self\<lparr>particle_locations :=
                                              (particle_locations self)[i := (new_x, new_y)]\<rparr>)))))"

fun particle_loop :: "(int \<times> int) list \<Rightarrow> lbm \<Rightarrow> nat list \<Rightarrow> error + lbm" where
  "particle_loop nodes self [] = Inr self"
| "particle_loop nodes self (i # js) =
     (case particle_step nodes self i of
        Inl e \<Rightarrow> Inl e
      | Inr self' \<Rightarrow> particle_loop nodes self' js)"

text \<open>
  \<^verbatim>\<open>update_particles(self, it)\<close>: the spawning block, then the loop over the particles
  spawned so far; \<open>nodes\<close> is the module constant \<^verbatim>\<open>susceptible_centroids\<close>, taken as
  a parameter.
\<close>

definition spawn_phase :: "(nat \<Rightarrow> nat) \<Rightarrow> lbm \<Rightarrow> nat \<Rightarrow> error + lbm" where
  "spawn_phase rnd self it =
     (if spawn_rate self = 0 then Inl ZeroDivisionError
      else if it mod spawn_rate self = 0
           then spawn_loop (spawn_amount_at_rate self) rnd self
           else Inr self)"

definition update_particles ::
  "(int \<times> int) list \<Rightarrow> (nat \<Rightarrow> nat) \<Rightarrow> lbm \<Rightarrow> nat \<Rightarrow> error + lbm" where
  "update_particles nodes rnd self it =
     (case spawn_phase rnd self it of
        Inl e \<Rightarrow> Inl e
      | Inr self1 \<Rightarrow> particle_loop nodes self1 [0..<particle_nr self1])"

text \<open>A run of calls, one per iteration index of the list.\<close>

fun run_particles ::
  "(int \<times> int) list \<Rightarrow> (nat \<Rightarrow> nat) \<Rightarrow> lbm \<Rightarrow> nat list \<Rightarrow> error + lbm" where
  "run_particles nodes rnd self [] = Inr self"
| "run_particles nodes rnd self (it # its) =
     (case update_particles nodes rnd self it of
        Inl e \<Rightarrow> Inl e
      | Inr self' \<Rightarrow> run_particles nodes rnd self' its)"

subsection \<open>Well-formed states\<close>

definition grid_shape :: "nat \<Rightarrow> nat \<Rightarrow> 'a list list \<Rightarrow> bool" where
  "grid_shape W H a \<longleftrightarrow> length a = W \<and> (\<forall>row \<in> set a. length row = H)"

definition field_shape :: "nat \<Rightarrow> nat \<Rightarrow> 'a list list list \<Rightarrow> bool" where
  "field_shape W H g \<longleftrightarrow>
     grid_shape W H g \<and> (\<forall>row \<in> set g. \<forall>cell \<in> set row. length cell = 9)"

text \<open>The shapes that \<^verbatim>\<open>__init__\<close> establishes for the flow part of the model.\<close>

definition wf_lbm :: "lbm \<Rightarrow> bool" where
  "wf_lbm self \<longleftrightarrow>
     0 < width self \<and> 0 < height self \<and>
     grid_shape (width self) (height self) (wall self) \<and>
     grid_shape (width self) (height self) (inlet self) \<and>
     grid_shape (width self) (height self) (outlet self) \<and>
     grid_shape (width self) (height self) (rho self) \<and>
     grid_shape (width self) (height self) (ux self) \<and>
     grid_shape (width self) (height self) (uy self) \<and>
     field_shape (width self) (height self) (f self)"

text \<open>The shapes that \<^verbatim>\<open>__init__\<close> and \<^verbatim>\<open>render\<close> establish for the particle part.\<close>

definition wf_particles :: "(int \<times> int) list \<Rightarrow> lbm \<Rightarrow> bool" where
  "wf_particles nodes self \<longleftrightarrow>
     2 \<le> width self \<and> 2 \<le> height self \<and> 0 < spawn_rate self \<and>
     grid_shape (width self) (height self) (infected self) \<and>
     grid_shape (width self) (height self) (susceptible self) \<and>
     grid_shape (width self) (height self) (outlet self) \<and>
     grid_shape (width self) (height self) (ux self) \<and>
     grid_shape (width self) (height self) (uy self) \<and>
     length (particle_locations self) = num_particles self \<and>
     particle_nr self \<le> num_particles self \<and>
     num_particles self \<le> length (removed self) \<and>
     length (infections self) = length nodes \<and>
     (\<forall>row \<in> set (infections self). num_particles self \<le> length row)"

text \<open>Particle \<open>i\<close> is inside the grid; every spawned particle is.\<close>

definition located :: "lbm \<Rightarrow> nat \<Rightarrow> bool" where
  "located t i \<longleftrightarrow>
     0 \<le> fst (particle_locations t ! i) \<and>
     fst (particle_locations t ! i) \<le> real (width t) - 1 \<and>
     0 \<le> snd (particle_locations t ! i) \<and>
     snd (particle_locations t ! i) \<le> real (height t) - 1"

definition in_bounds :: "lbm \<Rightarrow> bool" where
  "in_bounds self \<longleftrightarrow>
     (\<forall>i < particle_nr self.
        0 \<le> fst (particle_locations self ! i) \<and>
        fst (particle_locations self ! i) \<le> real (width self) - 1 \<and>
        0 \<le> snd (particle_locations self ! i) \<and>
        snd (particle_locations self ! i) \<le> real (height self) - 1)"

text \<open>
  What the loop over a set \<open>S\<close> of particle indices may change: the positions, the counter
  columns and the membership in \<^verbatim>\<open>particles_exited\<close> of the particles of \<open>S\<close>, and the
  printed lines. Everything else, and the shapes of the arrays, stay.
\<close>

definition frame :: "nat set \<Rightarrow> lbm \<Rightarrow> lbm \<Rightarrow> bool" where
  "frame S t t' \<longleftrightarrow>
     width t' = width t \<and> height t' = height t \<and>
     map_scaling_factor t' = map_scaling_factor t \<and>
     infected t' = infected t \<and> susceptible t' = susceptible t \<and> outlet t' = outlet t \<and>
     ux t' = ux t \<and> uy t' = uy t \<and>
     spawn_rate t' = spawn_rate t \<and> spawn_amount_at_rate t' = spawn_amount_at_rate t \<and>
     num_particles t' = num_particles t \<and> particle_nr t' = particle_nr t \<and>
     length (particle_locations t') = length (particle_locations t) \<and>
     length (infections t') = length (infections t) \<and>
     (\<forall>k. length (infections t' ! k) = length (infections t ! k)) \<and>
     length (removed t') = length (removed t) \<and>
     particles_exited t \<subseteq> particles_exited t' \<and>
     particles_exited t' \<subseteq> S \<union> particles_exited t \<and>
     (\<forall>j. j \<notin> S \<longrightarrow>
        particle_locations t' ! j = particle_locations t ! j \<and>
        removed t' ! j = removed t ! j \<and>
        (\<forall>k. infections t' ! k ! j = infections t ! k ! j))"

text \<open>
  The opposite-direction map in the words of the specification: index pairs (1,3), (2,4),
  (5,7), (6,8) are swapped and index 0 is fixed.
\<close>

fun opposite :: "nat \<Rightarrow> nat" where
  "opposite (Suc 0) = 3"
| "opposite (Suc (Suc (Suc 0))) = 1"
| "opposite (Suc (Suc 0)) = 4"
| "opposite (Suc (Suc (Suc (Suc 0)))) = 2"
| "opposite (Suc (Suc (Suc (Suc (Suc 0))))) = 7"
| "opposite (Suc (Suc (Suc (Suc (Suc (Suc (Suc 0))))))) = 5"
| "opposite (Suc (Suc (Suc (Suc (Suc (Suc 0)))))) = 8"
| "opposite (Suc (Suc (Suc (Suc (Suc (Suc (Suc (Suc 0)))))))) = 6"
| "opposite i = i"

text \<open>The total density: the sum of all populations of all cells.\<close>

definition total_density :: "real list list list \<Rightarrow> real" where
  "total_density g = sum_list (map (\<lambda>row. sum_list (map sum_list row)) g)"

subsection \<open>A small model\<close>

text \<open>A 2 x 2 model at rest with one wall cell, one infected and one susceptible cell, two
  centroids and room for two particles.\<close>

definition demo_nodes :: "(int \<times> int) list" where
  "demo_nodes = [(0, 0), (1, 1)]"

definition demo :: lbm where
  "demo = \<lparr>width = 2, height = 2, map_scaling_factor = 1,
           wall = [[True, False], [False, False]],
           inlet = [[False, False], [False, False]],
           outlet = [[False, False], [False, False]],
           infected = [[False, True], [False, False]],
           susceptible = [[False, False], [False, True]],
           cssq = 1 / 3, tau = 1, u_lb = 1 / 10,
           rho = [[1, 1], [1, 1]],
           ux = [[0, 0], [0, 0]],
           uy = [[0, 0], [0, 0]],
           f = [[w, w], [w, w]],
           spawn_rate = 20, spawn_amount_at_rate = 1,
           num_particles = 2, particle_nr = 0,
           particle_locations = [(0, 0), (0, 0)],
           infections = [[0, 0], [0, 0]],
           removed = [0, 0],
           particles_exited = {},
           stdout = []\<rparr>"

text \<open>A 2 x 2 field with pairwise different populations: cell \<open>(x, y)\<close> holds
  \<open>100 x + 10 y + i\<close> in direction \<open>i\<close>.\<close>

definition demo_f :: "real list list list" where
  "demo_f = [[[0, 1, 2, 3, 4, 5, 6, 7, 8], [10, 11, 12, 13, 14, 15, 16, 17, 18]],
             [[100, 101, 102, 103, 104, 105, 106, 107, 108],
              [110, 111, 112, 113, 114, 115, 116, 117, 118]]]"


text \<open>The small model with particle 0 resting on the susceptible cell \<open>(1, 1)\<close>.\<close>

definition arrived :: lbm where
  "arrived = demo\<lparr>particle_nr := 1, particle_locations := [(1, 1), (0, 0)]\<rparr>"

text \<open>The same model after particle 0 has been intercepted for centroid 1.\<close>

definition settled :: lbm where
  "settled = demo\<lparr>particle_nr := 1, particle_locations := [(0, 0), (0, 0)],
                   infections := [[0, 0], [1, 0]], particles_exited := {0}\<rparr>"


text \<open>The small model with the field \<open>demo_f\<close> and relaxation time 2: out of equilibrium
  and stable.\<close>

definition stirred :: lbm where
  "stirred = demo\<lparr>f := demo_f, tau := 2\<rparr>"

text \<open>The small model with particle 0 at \<open>(0.9, 0.9)\<close>: its rounded cell is the
  susceptible cell \<open>(1, 1)\<close>, its truncated position is \<open>(0, 0)\<close>.\<close>

definition near_miss :: lbm where
  "near_miss = demo\<lparr>particle_nr := 1, particle_locations := [(9 / 10, 9 / 10), (0, 0)]\<rparr>"

text \<open>The small model with a strong wind to the right.\<close>

definition windy :: lbm where
  "windy = demo\<lparr>ux := [[5, 5], [5, 5]]\<rparr>"

section \<open>Properties\<close>

subsection \<open>Column-wise filling\<close>

lemma length_set_column:
  "length (set_column i col a) = min (length a) (length col)"
  by (simp add: set_column_def)

lemma set_column_nth:
  "k < length a \<Longrightarrow> k < length col \<Longrightarrow> set_column i col a ! k = (a ! k)[i := col ! k]"
  by (simp add: set_column_def)

lemma fold_set_column_length:
  "(\<And>i. length (colf i) = length a) \<Longrightarrow>
   length (fold (\<lambda>i acc. set_column i (colf i) acc) js a) = length a"
proof (induction js arbitrary: a)
  case Nil
  then show ?case by simp
next
  case (Cons j js)
  have "length (set_column j (colf j) a) = length a"
    using Cons.prems by (simp add: length_set_column)
  then show ?case using Cons.IH[of "set_column j (colf j) a"] Cons.prems by simp
qed

lemma fold_set_column_nth:
  assumes "\<And>i. length (colf i) = length a" and "k < length a"
  shows "fold (\<lambda>i acc. set_column i (colf i) acc) [0..<m] a ! k =
           map (\<lambda>i. if i < m then colf i ! k else a ! k ! i) [0..<length (a ! k)]"
proof (induction m)
  case 0
  show ?case by (simp add: map_nth)
next
  case (Suc m)
  let ?prev = "fold (\<lambda>i acc. set_column i (colf i) acc) [0..<m] a"
  have len: "length ?prev = length a"
    using assms(1) by (rule fold_set_column_length)
  have "fold (\<lambda>i acc. set_column i (colf i) acc) [0..<Suc m] a ! k
          = set_column m (colf m) ?prev ! k"
    by simp
  also have "\<dots> = (?prev ! k)[m := colf m ! k]"
    using len assms by (simp add: set_column_nth)
  also have "\<dots> = map (\<lambda>i. if i < Suc m then colf i ! k else a ! k ! i) [0..<length (a ! k)]"
    unfolding Suc.IH
    by (rule nth_equalityI) (auto simp: nth_list_update less_Suc_eq)
  finally show ?case .
qed

lemma zeros_nth: "k < n \<Longrightarrow> zeros n m ! k = replicate m 0"
  by (simp add: zeros_def)

lemma length_zeros: "length (zeros n m) = n"
  by (simp add: zeros_def)

subsection \<open>The equilibrium of one cell\<close>

lemma get_equilibrium_nth:
  assumes "length rho_v = n" "length ux_v = n" "length uy_v = n" "k < n"
  shows "get_equilibrium self n rho_v ux_v uy_v ! k =
           map (\<lambda>i. w ! i * rho_v ! k *
                  (1 + (ux_v ! k * real_of_int (fst (c ! i)) + uy_v ! k * real_of_int (snd (c ! i))) / cssq self
                     + (ux_v ! k * real_of_int (fst (c ! i)) + uy_v ! k * real_of_int (snd (c ! i)))\<^sup>2
                         / (2 * (cssq self)\<^sup>2)
                     - (ux_v ! k * ux_v ! k + uy_v ! k * uy_v ! k) / (2 * cssq self)))
             [0..<9]"
proof -
  let ?colc = "\<lambda>i. map2 (\<lambda>a b. a * real_of_int (fst (c ! i)) + b * real_of_int (snd (c ! i))) ux_v uy_v"
  let ?udotc = "fold (\<lambda>i acc. set_column i (?colc i) acc) [0..<Q] (zeros n Q)"
  have udotc: "?udotc ! k ! i = ux_v ! k * real_of_int (fst (c ! i)) + uy_v ! k * real_of_int (snd (c ! i))"
    if "i < 9" for i
  proof -
    have "?udotc ! k = map (\<lambda>i. if i < Q then ?colc i ! k else zeros n Q ! k ! i) [0..<length (zeros n Q ! k)]"
      by (rule fold_set_column_nth) (use assms in \<open>simp_all add: length_zeros\<close>)
    then show ?thesis using that assms by (simp add: zeros_nth Q_def)
  qed
  let ?colf = "\<lambda>i. map (\<lambda>k. w ! i * rho_v ! k *
                               (1 + ?udotc ! k ! i / cssq self
                                  + (?udotc ! k ! i)\<^sup>2 / (2 * (cssq self)\<^sup>2)
                                  - map2 (\<lambda>a b. a * a + b * b) ux_v uy_v ! k / (2 * cssq self)))
                        [0..<n]"
  have "get_equilibrium self n rho_v ux_v uy_v ! k
          = fold (\<lambda>i acc. set_column i (?colf i) acc) [0..<Q] (zeros n 9) ! k"
    by (simp add: get_equilibrium_def Let_def)
  also have "\<dots> = map (\<lambda>i. if i < Q then ?colf i ! k else zeros n 9 ! k ! i) [0..<length (zeros n 9 ! k)]"
    by (rule fold_set_column_nth) (use assms in \<open>simp_all add: length_zeros\<close>)
  also have "\<dots> = map (\<lambda>i. ?colf i ! k) [0..<9]"
    using assms by (simp add: zeros_nth Q_def)
  also have "\<dots> = map (\<lambda>i. w ! i * rho_v ! k *
                  (1 + (ux_v ! k * real_of_int (fst (c ! i)) + uy_v ! k * real_of_int (snd (c ! i))) / cssq self
                     + (ux_v ! k * real_of_int (fst (c ! i)) + uy_v ! k * real_of_int (snd (c ! i)))\<^sup>2
                         / (2 * (cssq self)\<^sup>2)
                     - (ux_v ! k * ux_v ! k + uy_v ! k * uy_v ! k) / (2 * cssq self)))
             [0..<9]"
    using assms udotc by (intro map_cong refl) simp
  finally show ?thesis .
qed

lemma length_get_equilibrium:
  assumes "length rho_v = n" "length ux_v = n" "length uy_v = n"
  shows "length (get_equilibrium self n rho_v ux_v uy_v) = n"
  unfolding get_equilibrium_def Let_def
  by (rule trans[OF fold_set_column_length]) (simp_all add: length_zeros)

lemma get_equilibrium_nth_spec:
  assumes "cssq self = 1 / 3"
    and "length rho_v = n" and "length ux_v = n" and "length uy_v = n" and "k < n"
  shows "get_equilibrium self n rho_v ux_v uy_v ! k =
           map (\<lambda>i. f_eq_spec (rho_v ! k) (ux_v ! k) (uy_v ! k) i) [0..<9]"
proof -
  have "get_equilibrium self n rho_v ux_v uy_v ! k =
           map (\<lambda>i. w ! i * rho_v ! k *
                  (1 + (ux_v ! k * real_of_int (fst (c ! i)) + uy_v ! k * real_of_int (snd (c ! i))) / cssq self
                     + (ux_v ! k * real_of_int (fst (c ! i)) + uy_v ! k * real_of_int (snd (c ! i)))\<^sup>2
                         / (2 * (cssq self)\<^sup>2)
                     - (ux_v ! k * ux_v ! k + uy_v ! k * uy_v ! k) / (2 * cssq self)))
             [0..<9]"
    using assms(2-5) by (rule get_equilibrium_nth)
  also have "\<dots> = map (\<lambda>i. f_eq_spec (rho_v ! k) (ux_v ! k) (uy_v ! k) i) [0..<9]"
    unfolding assms(1) f_eq_spec_def Let_def
    by (simp add: power2_eq_square mult.commute)
  finally show ?thesis .
qed

text \<open>
  Claim C1. For every cell \<open>k\<close> with density \<open>rho_v ! k\<close> and velocity
  \<open>(ux_v ! k, uy_v ! k)\<close>, \<open>get_equilibrium\<close> returns for each of the nine directions \<open>i\<close>
  exactly \<open>w[i] * rho * (1 + (c[i] . u) / cssq + (c[i] . u)^2 / (2 cssq^2) - (u . u) / (2 cssq))\<close>
  with \<open>cssq = 1/3\<close>: the array that the two column loops of the source build is the table of
  the formula \<open>f_eq_spec\<close>, which reads nothing but the density and the velocity of that cell.
\<close>

theorem get_equilibrium_formula:
  assumes "cssq self = 1 / 3"
    and "length rho_v = n" and "length ux_v = n" and "length uy_v = n"
  shows "get_equilibrium self n rho_v ux_v uy_v =
           map (\<lambda>k. map (\<lambda>i. f_eq_spec (rho_v ! k) (ux_v ! k) (uy_v ! k) i) [0..<9]) [0..<n]"
proof (rule nth_equalityI)
  show "length (get_equilibrium self n rho_v ux_v uy_v) =
        length (map (\<lambda>k. map (\<lambda>i. f_eq_spec (rho_v ! k) (ux_v ! k) (uy_v ! k) i) [0..<9]) [0..<n])"
    using assms by (simp add: length_get_equilibrium)
next
  fix k assume "k < length (get_equilibrium self n rho_v ux_v uy_v)"
  then have k: "k < n" using assms by (simp add: length_get_equilibrium)
  then show "get_equilibrium self n rho_v ux_v uy_v ! k =
        map (\<lambda>k. map (\<lambda>i. f_eq_spec (rho_v ! k) (ux_v ! k) (uy_v ! k) i) [0..<9]) [0..<n] ! k"
    using assms by (simp add: get_equilibrium_nth_spec)
qed

theorem get_equilibrium_formula_witness:
  "cssq demo = 1 / 3 \<and>
   get_equilibrium demo 1 [1] [1 / 10] [0] =
     [[197 / 450, 133 / 900, 197 / 1800, 73 / 900, 197 / 1800,
       133 / 3600, 73 / 3600, 73 / 3600, 133 / 3600]]"
  using get_equilibrium_formula[where self = demo and n = 1 and rho_v = "[1]"
      and ux_v = "[1 / 10]" and uy_v = "[0]"]
  by (simp add: demo_def upt_rec f_eq_spec_def c_def w_def Let_def power2_eq_square)

subsection \<open>Sum and sign of the equilibrium\<close>

lemma upt9: "[0..<9] = [0, 1, 2, 3, 4, 5, 6, 7, 8]"
  by (simp add: upt_rec)

lemma f_eq_spec_sum: "sum_list (map (f_eq_spec r a b) [0..<9]) = r"
  by (simp add: upt9 f_eq_spec_def c_def w_def Let_def power2_eq_square field_simps)

lemma bracket_nonneg:
  fixes cu uu :: real
  assumes "uu \<le> 1 / 3"
  shows "0 \<le> 1 + cu / (1 / 3) + cu\<^sup>2 / (2 * (1 / 3)\<^sup>2) - uu / (2 * (1 / 3))"
proof -
  have "1 + cu / (1 / 3) + cu\<^sup>2 / (2 * (1 / 3)\<^sup>2) - uu / (2 * (1 / 3))
          = (3 * cu + 1)\<^sup>2 / 2 + 3 / 2 * (1 / 3 - uu)"
    by (simp add: power2_eq_square field_simps)
  moreover have "0 \<le> (3 * cu + 1)\<^sup>2 / 2" by simp
  moreover have "0 \<le> 3 / 2 * (1 / 3 - uu)" using assms by simp
  ultimately show ?thesis by linarith
qed

lemma w_nonneg: "i < 9 \<Longrightarrow> 0 \<le> w ! i"
proof -
  assume "i < 9"
  then have "i \<in> set [0..<9]" by simp
  then show ?thesis unfolding upt9 by (auto simp: w_def)
qed

lemma f_eq_spec_nonneg:
  assumes "0 \<le> r" "a\<^sup>2 + b\<^sup>2 \<le> 1 / 3" "i < 9"
  shows "0 \<le> f_eq_spec r a b i"
  unfolding f_eq_spec_def Let_def
  by (rule mult_nonneg_nonneg[OF mult_nonneg_nonneg[OF w_nonneg[OF assms(3)] assms(1)]
        bracket_nonneg[OF assms(2)]])

text \<open>
  Claim C2. For a cell of density 1 whose velocity magnitude is below \<open>sqrt cssq = sqrt (1/3)\<close>,
  the nine values that \<open>get_equilibrium\<close> produces for the cell are all non-negative and
  their sum is the density.
\<close>

theorem equilibrium_nonneg_sum:
  assumes "cssq self = 1 / 3"
    and "length rho_v = n" and "length ux_v = n" and "length uy_v = n" and "k < n"
    and "rho_v ! k = 1"
    and "sqrt ((ux_v ! k)\<^sup>2 + (uy_v ! k)\<^sup>2) < sqrt (cssq self)"
  shows "length (get_equilibrium self n rho_v ux_v uy_v ! k) = 9 \<and>
         (\<forall>v \<in> set (get_equilibrium self n rho_v ux_v uy_v ! k). 0 \<le> v) \<and>
         sum_list (get_equilibrium self n rho_v ux_v uy_v ! k) = rho_v ! k"
proof -
  have cell: "get_equilibrium self n rho_v ux_v uy_v ! k =
                map (\<lambda>i. f_eq_spec (rho_v ! k) (ux_v ! k) (uy_v ! k) i) [0..<9]"
    using assms(1-5) by (rule get_equilibrium_nth_spec)
  have small: "(ux_v ! k)\<^sup>2 + (uy_v ! k)\<^sup>2 \<le> 1 / 3"
    using assms(7) unfolding assms(1) by simp
  have "0 \<le> f_eq_spec (rho_v ! k) (ux_v ! k) (uy_v ! k) i" if "i < 9" for i
    using small that by (intro f_eq_spec_nonneg) (simp_all add: assms(6))
  then have "\<forall>v \<in> set (get_equilibrium self n rho_v ux_v uy_v ! k). 0 \<le> v"
    unfolding cell by auto
  moreover have "sum_list (get_equilibrium self n rho_v ux_v uy_v ! k) = rho_v ! k"
    unfolding cell by (rule f_eq_spec_sum)
  moreover have "length (get_equilibrium self n rho_v ux_v uy_v ! k) = 9"
    unfolding cell by simp
  ultimately show ?thesis by simp
qed

theorem equilibrium_nonneg_sum_witness:
  "cssq demo = 1 / 3 \<and> sqrt ((1 / 10)\<^sup>2 + 0\<^sup>2) < sqrt (cssq demo) \<and>
   length (get_equilibrium demo 1 [1] [1 / 10] [0] ! 0) = 9 \<and>
   0 \<le> get_equilibrium demo 1 [1] [1 / 10] [0] ! 0 ! 3 \<and>
   sum_list (get_equilibrium demo 1 [1] [1 / 10] [0] ! 0) = 1"
proof -
  have cs: "cssq demo = 1 / 3" by (simp add: demo_def)
  have mag: "sqrt (([1 / 10] ! 0)\<^sup>2 + ([0] ! 0)\<^sup>2) < sqrt (cssq demo)"
    unfolding cs by (simp add: power2_eq_square)
  let ?cell = "get_equilibrium demo 1 [1] [1 / 10] [0] ! 0"
  have all: "length ?cell = 9 \<and> (\<forall>v \<in> set ?cell. 0 \<le> v) \<and> sum_list ?cell = 1"
    using equilibrium_nonneg_sum[where self = demo and n = 1 and rho_v = "[1]"
        and ux_v = "[1 / 10]" and uy_v = "[0]" and k = 0, OF cs _ _ _ _ _ mag]
    by simp
  then have "?cell ! 3 \<in> set ?cell" by simp
  with all have "0 \<le> ?cell ! 3" by blast
  with all cs mag show ?thesis by simp
qed

subsection \<open>Rolling\<close>

lemma np_roll_rotate: "np_roll a s = rotate (nat ((- s) mod int (length a))) a"
proof (cases "a = []")
  case True
  then show ?thesis by (simp add: np_roll_def)
next
  case False
  let ?n = "length a"
  have n: "0 < ?n" using False by simp
  show ?thesis
  proof (cases "s mod int ?n = 0")
    case True
    then have "(- s) mod int ?n = 0" by (simp add: zmod_zminus1_eq_if)
    with True n show ?thesis by (simp add: np_roll_def)
  next
    case nz: False
    let ?off = "nat (s mod int ?n)"
    have pos: "0 < s mod int ?n" using nz n
      by (metis less_le of_nat_0_less_iff pos_mod_sign)
    have lt: "s mod int ?n < int ?n" using n by simp
    have off: "0 < ?off" "?off < ?n" using pos lt by linarith+
    have neg: "nat ((- s) mod int ?n) = ?n - ?off"
      using nz pos lt by (simp add: zmod_zminus1_eq_if nat_diff_distrib')
    have "np_roll a s = drop (?n - ?off) a @ take (?n - ?off) a"
      using off n by (simp add: np_roll_def Let_def)
    also have "\<dots> = rotate (?n - ?off) a"
      using off by (simp add: rotate_drop_take)
    finally show ?thesis by (simp only: neg)
  qed
qed

lemma length_np_roll [simp]: "length (np_roll a s) = length a"
  by (simp add: np_roll_rotate)

lemma np_roll_nth:
  assumes "j < length a"
  shows "np_roll a s ! j = a ! nat ((int j - s) mod int (length a))"
proof -
  let ?n = "length a"
  have n: "0 < int ?n" using assms by (cases a) simp_all
  have "int ((nat ((- s) mod int ?n) + j) mod ?n) = ((- s) mod int ?n + int j) mod int ?n"
    using n by (simp add: zmod_int)
  also have "\<dots> = (int j - s) mod int ?n"
    by (simp add: mod_add_left_eq)
  finally have "(nat ((- s) mod int ?n) + j) mod ?n = nat ((int j - s) mod int ?n)"
    by linarith
  then show ?thesis using assms by (simp add: np_roll_rotate nth_rotate)
qed

lemma np_roll_index_less:
  "0 < n \<Longrightarrow> nat ((int j - s) mod int n) < n"
  by (simp add: nat_less_iff)

lemma np_roll_inverse: "np_roll (np_roll a s) (- s) = a"
proof (rule nth_equalityI)
  show "length (np_roll (np_roll a s) (- s)) = length a" by simp
next
  fix j assume "j < length (np_roll (np_roll a s) (- s))"
  then have j: "j < length a" by simp
  let ?n = "int (length a)"
  have n: "0 < ?n" using j by (cases a) simp_all
  let ?j' = "nat ((int j - - s) mod ?n)"
  have j': "?j' < length a" using n by (intro np_roll_index_less) simp
  have "int ?j' = (int j + s) mod ?n" using n by simp
  then have "(int ?j' - s) mod ?n = int j mod ?n"
    by (simp add: mod_diff_left_eq)
  also have "\<dots> = int j" using j by simp
  finally have ret: "nat ((int ?j' - s) mod ?n) = j" by simp
  have "np_roll (np_roll a s) (- s) ! j = np_roll a s ! ?j'"
    using j by (simp add: np_roll_nth)
  also have "\<dots> = a ! nat ((int ?j' - s) mod ?n)"
    using j' by (rule np_roll_nth)
  finally show "np_roll (np_roll a s) (- s) ! j = a ! j"
    by (simp only: ret)
qed

lemma np_roll_map: "np_roll (map h a) s = map h (np_roll a s)"
  by (simp add: np_roll_def Let_def drop_map take_map)

lemma np_roll2_inverse: "np_roll2 (np_roll2 a v) (- fst v, - snd v) = a"
proof -
  have "np_roll2 (np_roll2 a v) (- fst v, - snd v)
          = map (\<lambda>row. np_roll (np_roll row (snd v)) (- snd v)) (np_roll (np_roll a (fst v)) (- fst v))"
    by (simp add: np_roll2_def np_roll_map)
  then show ?thesis by (simp add: np_roll_inverse)
qed

subsection \<open>Grids, slices and masks\<close>

lemma grid_shape_length: "grid_shape W H a \<Longrightarrow> length a = W"
  by (simp add: grid_shape_def)

lemma grid_shape_nth: "grid_shape W H a \<Longrightarrow> x < W \<Longrightarrow> length (a ! x) = H"
  by (simp add: grid_shape_def)

lemma grid_shapeI:
  "length a = W \<Longrightarrow> (\<And>x. x < W \<Longrightarrow> length (a ! x) = H) \<Longrightarrow> grid_shape W H a"
  by (auto simp: grid_shape_def in_set_conv_nth)

lemma field_shape_grid: "field_shape W H g \<Longrightarrow> grid_shape W H g"
  by (simp add: field_shape_def)

lemma field_shape_nth:
  assumes "field_shape W H g" "x < W" "y < H"
  shows "length (g ! x ! y) = 9"
proof -
  have row: "g ! x \<in> set g" using assms(1,2) by (simp add: field_shape_def grid_shape_def)
  then have "length (g ! x) = H" using assms(1) by (simp add: field_shape_def grid_shape_def)
  then have "g ! x ! y \<in> set (g ! x)" using assms(3) by simp
  with row show ?thesis using assms(1) by (simp add: field_shape_def)
qed

lemma field_shapeI:
  "grid_shape W H g \<Longrightarrow> (\<And>x y. x < W \<Longrightarrow> y < H \<Longrightarrow> length (g ! x ! y) = 9) \<Longrightarrow>
   field_shape W H g"
  unfolding field_shape_def grid_shape_def
  by (auto simp: in_set_conv_nth)

lemma get_dir_shape: "grid_shape W H g \<Longrightarrow> grid_shape W H (get_dir i g)"
  by (simp add: grid_shape_def get_dir_def)

lemma get_dir_nth:
  "grid_shape W H g \<Longrightarrow> x < W \<Longrightarrow> y < H \<Longrightarrow> get_dir i g ! x ! y = g ! x ! y ! i"
  by (simp add: grid_shape_def get_dir_def)

lemma np_roll_set: "set (np_roll a s) = set a"
  by (simp add: np_roll_rotate)

lemma np_roll2_shape: "grid_shape W H a \<Longrightarrow> grid_shape W H (np_roll2 a v)"
  by (auto simp: grid_shape_def np_roll2_def np_roll_set)

lemma np_roll2_nth:
  assumes "grid_shape W H a" "x < W" "y < H"
  shows "np_roll2 a v ! x ! y =
           a ! nat ((int x - fst v) mod int W) ! nat ((int y - snd v) mod int H)"
proof -
  let ?x' = "nat ((int x - fst v) mod int W)"
  have W: "length a = W" using assms(1) by (rule grid_shape_length)
  have x': "?x' < W" using assms(2) by (intro np_roll_index_less) simp
  have H: "length (a ! ?x') = H" using assms(1) x' by (rule grid_shape_nth)
  have "np_roll2 a v ! x = np_roll (np_roll a (fst v) ! x) (snd v)"
    using assms(2) W by (simp add: np_roll2_def)
  also have "np_roll a (fst v) ! x = a ! ?x'"
    using assms(2) W by (simp add: np_roll_nth)
  finally show ?thesis using assms(3) H by (simp add: np_roll_nth)
qed

lemma set_dir_nth:
  assumes "grid_shape W H g" "grid_shape W H v" "x < W" "y < H"
  shows "set_dir i v g ! x ! y = (g ! x ! y)[i := v ! x ! y]"
  using assms by (simp add: set_dir_def grid_shape_def)

lemma set_dir_shape:
  assumes "field_shape W H g" "grid_shape W H v"
  shows "field_shape W H (set_dir i v g)"
proof (rule field_shapeI)
  have g: "grid_shape W H g" using assms(1) by (rule field_shape_grid)
  show "grid_shape W H (set_dir i v g)"
  proof (rule grid_shapeI)
    show "length (set_dir i v g) = W"
      using g assms(2) by (simp add: set_dir_def grid_shape_def)
  next
    fix x assume "x < W"
    then show "length (set_dir i v g ! x) = H"
      using g assms(2) by (simp add: set_dir_def grid_shape_def)
  qed
next
  fix x y assume "x < W" "y < H"
  then show "length (set_dir i v g ! x ! y) = 9"
    using field_shape_nth[OF assms(1), of x y]
    by (simp add: set_dir_nth[OF field_shape_grid[OF assms(1)] assms(2)])
qed

text \<open>One pass of the streaming loop, for direction \<open>i\<close>.\<close>

lemma stream_step_shape:
  assumes "field_shape W H g"
  shows "field_shape W H (set_dir i (np_roll2 (get_dir i g) (c ! i)) g)"
  using assms
  by (intro set_dir_shape np_roll2_shape get_dir_shape field_shape_grid)

lemma stream_step_nth:
  assumes "field_shape W H g" "x < W" "y < H"
  shows "set_dir i (np_roll2 (get_dir i g) (c ! i)) g ! x ! y =
           (g ! x ! y)[i := g ! nat ((int x - fst (c ! i)) mod int W)
                              ! nat ((int y - snd (c ! i)) mod int H) ! i]"
proof -
  have g: "grid_shape W H g" using assms(1) by (rule field_shape_grid)
  have x': "nat ((int x - fst (c ! i)) mod int W) < W"
    using assms(2) by (intro np_roll_index_less) simp
  have y': "nat ((int y - snd (c ! i)) mod int H) < H"
    using assms(3) by (intro np_roll_index_less) simp
  have "set_dir i (np_roll2 (get_dir i g) (c ! i)) g ! x ! y
          = (g ! x ! y)[i := np_roll2 (get_dir i g) (c ! i) ! x ! y]"
    using g np_roll2_shape[OF get_dir_shape[OF g]] assms(2,3) by (rule set_dir_nth)
  also have "np_roll2 (get_dir i g) (c ! i) ! x ! y
          = get_dir i g ! nat ((int x - fst (c ! i)) mod int W)
                        ! nat ((int y - snd (c ! i)) mod int H)"
    using get_dir_shape[OF g] assms(2,3) by (rule np_roll2_nth)
  also have "\<dots> = g ! nat ((int x - fst (c ! i)) mod int W)
                      ! nat ((int y - snd (c ! i)) mod int H) ! i"
    using g x' y' by (rule get_dir_nth)
  finally show ?thesis .
qed

lemma stream_fold_shape:
  "field_shape W H g \<Longrightarrow>
   field_shape W H (fold (\<lambda>i acc. set_dir i (np_roll2 (get_dir i acc) (c ! i)) acc) js g)"
  by (induction js arbitrary: g) (simp_all add: stream_step_shape)

lemma stream_fold_nth:
  assumes "field_shape W H g"
  shows "x < W \<Longrightarrow> y < H \<Longrightarrow>
         fold (\<lambda>i acc. set_dir i (np_roll2 (get_dir i acc) (c ! i)) acc) [0..<m] g ! x ! y =
           map (\<lambda>j. if j < m
                     then g ! nat ((int x - fst (c ! j)) mod int W)
                            ! nat ((int y - snd (c ! j)) mod int H) ! j
                     else g ! x ! y ! j) [0..<9]"
proof (induction m arbitrary: x y)
  case 0
  have "length (g ! x ! y) = 9" using assms 0 by (rule field_shape_nth)
  then show ?case using map_nth[of "g ! x ! y"] by simp
next
  case (Suc m)
  let ?prev = "fold (\<lambda>i acc. set_dir i (np_roll2 (get_dir i acc) (c ! i)) acc) [0..<m] g"
  let ?x' = "nat ((int x - fst (c ! m)) mod int W)"
  let ?y' = "nat ((int y - snd (c ! m)) mod int H)"
  have shape: "field_shape W H ?prev" using assms(1) by (rule stream_fold_shape)
  have x': "?x' < W"
    using Suc.prems(1) by (intro np_roll_index_less) simp
  have y': "?y' < H"
    using Suc.prems(2) by (intro np_roll_index_less) simp
  have src: "m < 9 \<Longrightarrow> ?prev ! ?x' ! ?y' ! m = g ! ?x' ! ?y' ! m"
    by (simp add: Suc.IH[OF x' y'])
  have "fold (\<lambda>i acc. set_dir i (np_roll2 (get_dir i acc) (c ! i)) acc) [0..<Suc m] g ! x ! y
          = set_dir m (np_roll2 (get_dir m ?prev) (c ! m)) ?prev ! x ! y"
    by simp
  also have "\<dots> = (?prev ! x ! y)[m := ?prev ! ?x' ! ?y' ! m]"
    using shape Suc.prems by (rule stream_step_nth)
  also have "\<dots> = map (\<lambda>j. if j < Suc m
                     then g ! nat ((int x - fst (c ! j)) mod int W)
                            ! nat ((int y - snd (c ! j)) mod int H) ! j
                     else g ! x ! y ! j) [0..<9]"
    unfolding Suc.IH[OF Suc.prems]
    using src by (intro nth_equalityI) (auto simp: nth_list_update less_Suc_eq)
  finally show ?case .
qed

lemma grid_eqI:
  assumes "grid_shape W H a" "grid_shape W H b"
    and "\<And>x y. x < W \<Longrightarrow> y < H \<Longrightarrow> a ! x ! y = b ! x ! y"
  shows "a = b"
proof (rule nth_equalityI)
  show "length a = length b" using assms(1,2) by (simp add: grid_shape_def)
next
  fix x assume "x < length a"
  then have x: "x < W" using assms(1) by (simp add: grid_shape_def)
  show "a ! x = b ! x"
  proof (rule nth_equalityI)
    show "length (a ! x) = length (b ! x)"
      using grid_shape_nth[OF assms(1) x] grid_shape_nth[OF assms(2) x] by simp
  next
    fix y assume "y < length (a ! x)"
    then have "y < H" using grid_shape_nth[OF assms(1) x] by simp
    with x show "a ! x ! y = b ! x ! y" by (rule assms(3))
  qed
qed

lemma flat_index_less:
  fixes x y W H :: nat
  assumes "x < W" "y < H"
  shows "x * H + y < W * H"
proof -
  have "x * H + y < x * H + H" using assms(2) by simp
  also have "\<dots> = Suc x * H" by simp
  also have "\<dots> \<le> W * H" using assms(1) by (intro mult_le_mono1) simp
  finally show ?thesis .
qed

lemma length_concat_grid: "grid_shape W H a \<Longrightarrow> length (concat a) = W * H"
proof (induction a arbitrary: W)
  case Nil
  then show ?case by (simp add: grid_shape_def)
next
  case (Cons row a)
  then obtain W' where W: "W = Suc W'" and rest: "grid_shape W' H a" and row: "length row = H"
    by (cases W) (auto simp: grid_shape_def)
  show ?case using Cons.IH[OF rest] row W by simp
qed

lemma concat_nth_grid:
  "grid_shape W H a \<Longrightarrow> x < W \<Longrightarrow> y < H \<Longrightarrow> concat a ! (x * H + y) = a ! x ! y"
proof (induction a arbitrary: W x)
  case Nil
  then show ?case by (simp add: grid_shape_def)
next
  case (Cons row a)
  then obtain W' where W: "W = Suc W'" and rest: "grid_shape W' H a" and row: "length row = H"
    by (cases W) (auto simp: grid_shape_def)
  show ?case
  proof (cases x)
    case 0
    then show ?thesis using row Cons.prems(3) by (simp add: nth_append)
  next
    case (Suc x')
    then have "x' < W'" using Cons.prems(2) W by simp
    from Cons.IH[OF rest this Cons.prems(3)] show ?thesis
      using Suc row by (simp add: nth_append)
  qed
qed

lemma reshape_shape:
  assumes "length zs = W * H"
  shows "grid_shape W H (reshape W H zs)"
proof (rule grid_shapeI)
  show "length (reshape W H zs) = W" by (simp add: reshape_def)
next
  fix x assume x: "x < W"
  have "Suc x * H \<le> W * H" using x by (intro mult_le_mono1) simp
  then have "x * H + H \<le> length zs" using assms by simp
  then show "length (reshape W H zs ! x) = H"
    using x by (simp add: reshape_def)
qed

lemma reshape_nth:
  assumes "length zs = W * H" "x < W" "y < H"
  shows "reshape W H zs ! x ! y = zs ! (x * H + y)"
  using assms flat_index_less[OF assms(2,3)]
  by (simp add: reshape_def)

lemma reshape_concat: "grid_shape W H a \<Longrightarrow> reshape W H (concat a) = a"
proof (rule grid_eqI[where W = W and H = H])
  assume a: "grid_shape W H a"
  show "grid_shape W H (reshape W H (concat a))"
    using length_concat_grid[OF a] by (rule reshape_shape)
  show "grid_shape W H a" by (rule a)
  fix x y assume "x < W" "y < H"
  then show "reshape W H (concat a) ! x ! y = a ! x ! y"
    using a by (simp add: reshape_nth length_concat_grid concat_nth_grid)
qed

lemma mask_set_flat_empty: "mask_set_flat bs xs [] = xs"
  by (induction bs xs "[] :: 'a list" rule: mask_set_flat.induct) simp_all

lemma mask_set_flat_map:
  "length bs = length xs \<Longrightarrow>
   mask_set_flat bs xs (map h (map snd (filter fst (zip bs xs)))) =
     map2 (\<lambda>b x. if b then h x else x) bs xs"
  by (induction bs xs rule: list_induct2) simp_all

lemma mask_set_map_get:
  assumes "grid_shape W H m" "grid_shape W H a" "x < W" "y < H"
  shows "mask_set W H m a (map h (mask_get m a)) ! x ! y =
           (if m ! x ! y then h (a ! x ! y) else a ! x ! y)"
proof -
  have lm: "length (concat m) = W * H" using assms(1) by (rule length_concat_grid)
  have la: "length (concat a) = W * H" using assms(2) by (rule length_concat_grid)
  have k: "x * H + y < W * H" using assms(3,4) by (rule flat_index_less)
  have "mask_set W H m a (map h (mask_get m a))
          = reshape W H (map2 (\<lambda>b x. if b then h x else x) (concat m) (concat a))"
    by (simp only: mask_set_def mask_get_def mask_set_flat_map[OF trans[OF lm la[symmetric]]])
  also have "\<dots> ! x ! y = map2 (\<lambda>b x. if b then h x else x) (concat m) (concat a) ! (x * H + y)"
    using lm la assms(3,4) by (intro reshape_nth) simp_all
  also have "\<dots> = (if m ! x ! y then h (a ! x ! y) else a ! x ! y)"
    using lm la k assms by (simp add: concat_nth_grid)
  finally show ?thesis .
qed

lemma mask_set_map_get_shape:
  assumes "grid_shape W H m" "grid_shape W H a"
  shows "grid_shape W H (mask_set W H m a (map h (mask_get m a)))"
proof -
  have lm: "length (concat m) = W * H" using assms(1) by (rule length_concat_grid)
  have la: "length (concat a) = W * H" using assms(2) by (rule length_concat_grid)
  have "mask_set W H m a (map h (mask_get m a))
          = reshape W H (map2 (\<lambda>b x. if b then h x else x) (concat m) (concat a))"
    by (simp only: mask_set_def mask_get_def mask_set_flat_map[OF trans[OF lm la[symmetric]]])
  then show ?thesis using lm la by (simp add: reshape_shape)
qed

lemma mask_fill_nth:
  "grid_shape W H m \<Longrightarrow> grid_shape W H a \<Longrightarrow> x < W \<Longrightarrow> y < H \<Longrightarrow>
   mask_fill m a v ! x ! y = (if m ! x ! y then v else a ! x ! y)"
  by (simp add: mask_fill_def grid_shape_def)

lemma mask_fill_shape:
  "grid_shape W H m \<Longrightarrow> grid_shape W H a \<Longrightarrow> grid_shape W H (mask_fill m a v)"
  by (rule grid_shapeI) (simp_all add: mask_fill_def grid_shape_def)

subsection \<open>Streaming\<close>

lemma streaming_shape: "field_shape W H g \<Longrightarrow> field_shape W H (streaming g)"
  unfolding streaming_def by (rule stream_fold_shape)

lemma streaming_nth:
  assumes "field_shape W H g" "x < W" "y < H" "i < 9"
  shows "streaming g ! x ! y ! i =
           g ! nat ((int x - fst (c ! i)) mod int W) ! nat ((int y - snd (c ! i)) mod int H) ! i"
  unfolding streaming_def using assms(4)
  by (simp add: stream_fold_nth[OF assms(1-3)] Q_def)

text \<open>
  Claim C5. The streaming step replaces each of the nine directional fields by that field
  rolled by the direction's offset vector: the population of direction \<open>i\<close> that arrives at
  cell \<open>(x, y)\<close> is the one of cell \<open>((x - cx) mod W, (y - cy) mod H)\<close>, which wraps around
  at the edges of the domain. Rolling any field by an offset vector \<open>v\<close> and then by \<open>- v\<close>
  gives the field back.
\<close>

theorem streaming_periodic:
  assumes "field_shape W H g" and "i < 9"
  shows "get_dir i (streaming g) = np_roll2 (get_dir i g) (c ! i) \<and>
         (\<forall>x<W. \<forall>y<H. streaming g ! x ! y ! i =
            g ! nat ((int x - fst (c ! i)) mod int W)
              ! nat ((int y - snd (c ! i)) mod int H) ! i) \<and>
         np_roll2 (np_roll2 a v) (- fst v, - snd v) = a"
proof (intro conjI allI impI)
  have g: "grid_shape W H g" using assms(1) by (rule field_shape_grid)
  have sg: "grid_shape W H (streaming g)"
    using assms(1) by (intro field_shape_grid streaming_shape)
  show "get_dir i (streaming g) = np_roll2 (get_dir i g) (c ! i)"
  proof (rule grid_eqI[where W = W and H = H])
    show "grid_shape W H (get_dir i (streaming g))" using sg by (rule get_dir_shape)
    show "grid_shape W H (np_roll2 (get_dir i g) (c ! i))"
      using g by (intro np_roll2_shape get_dir_shape)
    fix x y assume xy: "x < W" "y < H"
    have x': "nat ((int x - fst (c ! i)) mod int W) < W"
      using xy(1) by (intro np_roll_index_less) simp
    have y': "nat ((int y - snd (c ! i)) mod int H) < H"
      using xy(2) by (intro np_roll_index_less) simp
    show "get_dir i (streaming g) ! x ! y = np_roll2 (get_dir i g) (c ! i) ! x ! y"
      using xy x' y' assms g sg
      by (simp add: get_dir_nth[where W = W and H = H] streaming_nth[where W = W and H = H]
          np_roll2_nth[where W = W and H = H] get_dir_shape)
  qed
next
  fix x y assume "x < W" "y < H"
  with assms show "streaming g ! x ! y ! i =
            g ! nat ((int x - fst (c ! i)) mod int W)
              ! nat ((int y - snd (c ! i)) mod int H) ! i"
    by (simp add: streaming_nth)
next
  show "np_roll2 (np_roll2 a v) (- fst v, - snd v) = a" by (rule np_roll2_inverse)
qed

theorem streaming_periodic_witness:
  "field_shape 2 2 demo_f \<and> streaming demo_f ! 0 ! 0 ! 1 = 101 \<and>
   get_dir 1 (streaming demo_f) = [[101, 111], [1, 11]] \<and>
   np_roll2 (np_roll2 [[1, 2], [3, 4 :: nat]] (1, - 1)) (- 1, 1) = [[1, 2], [3, 4]]"
proof -
  have shape: "field_shape 2 2 demo_f"
    by (simp add: field_shape_def grid_shape_def demo_f_def)
  have i: "(1::nat) < 9" and z: "(0::nat) < 2" by simp_all
  note T = streaming_periodic[where W = 2 and H = 2 and g = demo_f and i = 1
      and a = "[[1, 2], [3, 4 :: nat]]" and v = "(1, - 1)", OF shape i]
  from T z have "streaming demo_f ! 0 ! 0 ! 1 =
      demo_f ! nat ((int 0 - fst (c ! 1)) mod int 2) ! nat ((int 0 - snd (c ! 1)) mod int 2) ! 1"
    by blast
  then have a: "streaming demo_f ! 0 ! 0 ! 1 = 101"
    by (simp add: c_def demo_f_def)
  from T have "get_dir 1 (streaming demo_f) = np_roll2 (get_dir 1 demo_f) (c ! 1)"
    by blast
  then have b: "get_dir 1 (streaming demo_f) = [[101, 111], [1, 11]]"
    by (simp add: c_def demo_f_def get_dir_def np_roll2_def np_roll_def)
  from T have "np_roll2 (np_roll2 [[1, 2], [3, 4 :: nat]] (1, - 1)) (- fst (1 :: int, - 1 :: int), - snd (1 :: int, - 1 :: int))
          = [[1, 2], [3, 4]]"
    by blast
  with shape a b show ?thesis by simp
qed

subsection \<open>Moments and the equilibrium field\<close>

lemma moment_update_rho: "fst (moment_update g) = map (map sum_list) g"
  by (simp add: moment_update_def Let_def)

lemma update_moments_simps:
  "f (update_moments self) = f self"
  "width (update_moments self) = width self"
  "height (update_moments self) = height self"
  "wall (update_moments self) = wall self"
  "inlet (update_moments self) = inlet self"
  "outlet (update_moments self) = outlet self"
  "cssq (update_moments self) = cssq self"
  "tau (update_moments self) = tau self"
  "rho (update_moments self) = map (map sum_list) (f self)"
  by (simp_all add: update_moments_def moment_update_def Let_def)

lemma map2_map2_shape:
  assumes "grid_shape W H a" "grid_shape W H b"
  shows "grid_shape W H (map2 (map2 h) a b)"
proof (rule grid_shapeI)
  show "length (map2 (map2 h) a b) = W"
    using assms by (simp add: grid_shape_def)
next
  fix x assume "x < W"
  then show "length (map2 (map2 h) a b ! x) = H"
    using assms by (simp add: grid_shape_def)
qed

lemma map2_map2_nth:
  assumes "grid_shape W H a" "grid_shape W H b" "x < W" "y < H"
  shows "map2 (map2 h) a b ! x ! y = h (a ! x ! y) (b ! x ! y)"
  using assms by (simp add: grid_shape_def)

lemma map_map_shape: "grid_shape W H a \<Longrightarrow> grid_shape W H (map (map h) a)"
  by (simp add: grid_shape_def)

lemma map_map_nth:
  "grid_shape W H a \<Longrightarrow> x < W \<Longrightarrow> y < H \<Longrightarrow> map (map h) a ! x ! y = h (a ! x ! y)"
  by (simp add: grid_shape_def)

lemma update_moments_shapes:
  assumes "field_shape W H (f self)"
  shows "grid_shape W H (rho (update_moments self))"
    and "grid_shape W H (ux (update_moments self))"
    and "grid_shape W H (uy (update_moments self))"
proof -
  have g: "grid_shape W H (f self)" using assms by (rule field_shape_grid)
  have r: "grid_shape W H (map (map sum_list) (f self))" using g by (rule map_map_shape)
  show "grid_shape W H (rho (update_moments self))"
    using r by (simp add: update_moments_simps)
  show "grid_shape W H (ux (update_moments self))"
    using map2_map2_shape[OF g r]
    by (simp add: update_moments_def moment_update_def Let_def)
  show "grid_shape W H (uy (update_moments self))"
    using map2_map2_shape[OF g r]
    by (simp add: update_moments_def moment_update_def Let_def)
qed

lemma update_moments_rho_nth:
  assumes "field_shape W H (f self)" "x < W" "y < H"
  shows "rho (update_moments self) ! x ! y = sum_list (f self ! x ! y)"
  using map_map_nth[OF field_shape_grid[OF assms(1)] assms(2,3)]
  by (simp add: update_moments_simps)

text \<open>The equilibrium field of a model whose moments have the shape of the grid.\<close>

lemma equilibrium_field_cell:
  assumes "grid_shape (width s) (height s) (rho s)"
    and "grid_shape (width s) (height s) (ux s)"
    and "grid_shape (width s) (height s) (uy s)"
    and "x < width s" and "y < height s"
  shows "equilibrium_field s ! x ! y =
           get_equilibrium s (width s * height s) (concat (rho s)) (concat (ux s))
             (concat (uy s)) ! (x * height s + y)"
proof -
  have "length (get_equilibrium s (width s * height s) (concat (rho s)) (concat (ux s))
                  (concat (uy s))) = width s * height s"
    using assms(1-3) by (intro length_get_equilibrium length_concat_grid)
  then show ?thesis
    unfolding equilibrium_field_def using assms(4,5) by (rule reshape_nth)
qed

lemma equilibrium_field_grid:
  assumes "grid_shape (width s) (height s) (rho s)"
    and "grid_shape (width s) (height s) (ux s)"
    and "grid_shape (width s) (height s) (uy s)"
  shows "grid_shape (width s) (height s) (equilibrium_field s)"
  unfolding equilibrium_field_def
  using assms by (intro reshape_shape length_get_equilibrium length_concat_grid)

lemma equilibrium_field_nth_spec:
  assumes "cssq s = 1 / 3"
    and "grid_shape (width s) (height s) (rho s)"
    and "grid_shape (width s) (height s) (ux s)"
    and "grid_shape (width s) (height s) (uy s)"
    and "x < width s" and "y < height s"
  shows "equilibrium_field s ! x ! y =
           map (f_eq_spec (rho s ! x ! y) (ux s ! x ! y) (uy s ! x ! y)) [0..<9]"
proof -
  let ?k = "x * height s + y"
  have k: "?k < width s * height s" using assms(5,6) by (rule flat_index_less)
  have "equilibrium_field s ! x ! y =
          get_equilibrium s (width s * height s) (concat (rho s)) (concat (ux s))
             (concat (uy s)) ! ?k"
    using assms(2-6) by (rule equilibrium_field_cell)
  also have "\<dots> = map (f_eq_spec (concat (rho s) ! ?k) (concat (ux s) ! ?k) (concat (uy s) ! ?k))
                      [0..<9]"
    using assms(1-4) k by (intro get_equilibrium_nth_spec length_concat_grid)
  finally show ?thesis
    using assms(2-6) by (simp add: concat_nth_grid)
qed

lemma equilibrium_field_shape:
  assumes "grid_shape (width s) (height s) (rho s)"
    and "grid_shape (width s) (height s) (ux s)"
    and "grid_shape (width s) (height s) (uy s)"
  shows "field_shape (width s) (height s) (equilibrium_field s)"
proof (rule field_shapeI)
  show "grid_shape (width s) (height s) (equilibrium_field s)"
    using assms by (rule equilibrium_field_grid)
next
  fix x y assume xy: "x < width s" "y < height s"
  have k: "x * height s + y < width s * height s" using xy by (rule flat_index_less)
  have "equilibrium_field s ! x ! y =
          get_equilibrium s (width s * height s) (concat (rho s)) (concat (ux s))
             (concat (uy s)) ! (x * height s + y)"
    using assms xy by (rule equilibrium_field_cell)
  then show "length (equilibrium_field s ! x ! y) = 9"
    using assms k by (simp add: get_equilibrium_nth length_concat_grid)
qed

subsection \<open>Collision\<close>

lemma sum_list_relax:
  fixes xs ys :: "real list"
  shows "length xs = length ys \<Longrightarrow>
         sum_list (map2 (\<lambda>a b. a * p + q * b) xs ys) = sum_list xs * p + q * sum_list ys"
  by (induction xs ys rule: list_induct2) (simp_all add: algebra_simps)

lemma collision_shape:
  assumes "field_shape W H g" "field_shape W H g_eq"
  shows "field_shape W H (collision t g g_eq)"
proof (rule field_shapeI)
  show "grid_shape W H (collision t g g_eq)"
    unfolding collision_def using assms by (intro map2_map2_shape field_shape_grid)
next
  fix x y assume xy: "x < W" "y < H"
  have "collision t g g_eq ! x ! y =
          map2 (\<lambda>a b. a * (1 - (1 / t)) + (1 / t) * b) (g ! x ! y) (g_eq ! x ! y)"
    unfolding collision_def
    using field_shape_grid[OF assms(1)] field_shape_grid[OF assms(2)] xy
    by (rule map2_map2_nth)
  then show "length (collision t g g_eq ! x ! y) = 9"
    using field_shape_nth[OF assms(1) xy] field_shape_nth[OF assms(2) xy] by simp
qed

lemma collision_cell_sum:
  assumes "field_shape W H g" "field_shape W H g_eq" "x < W" "y < H"
  shows "sum_list (collision t g g_eq ! x ! y) =
           sum_list (g ! x ! y) * (1 - (1 / t)) + (1 / t) * sum_list (g_eq ! x ! y)"
proof -
  have "collision t g g_eq ! x ! y =
          map2 (\<lambda>a b. a * (1 - (1 / t)) + (1 / t) * b) (g ! x ! y) (g_eq ! x ! y)"
    unfolding collision_def
    using field_shape_grid[OF assms(1)] field_shape_grid[OF assms(2)] assms(3,4)
    by (rule map2_map2_nth)
  moreover have "length (g ! x ! y) = length (g_eq ! x ! y)"
    using field_shape_nth[OF assms(1) assms(3,4)] field_shape_nth[OF assms(2) assms(3,4)]
    by simp
  ultimately show ?thesis by (simp only: sum_list_relax)
qed

subsection \<open>The total density by cells\<close>

lemma sum_list_map_nth:
  fixes h :: "'a \<Rightarrow> real"
  shows "sum_list (map h xs) = (\<Sum>k<length xs. h (xs ! k))"
proof -
  have "sum_list (map h xs) = (\<Sum>k = 0..<length (map h xs). map h xs ! k)"
    by (rule sum_list_sum_nth)
  also have "\<dots> = (\<Sum>k<length xs. h (xs ! k))"
    by (simp add: atLeast0LessThan)
  finally show ?thesis .
qed

lemma total_density_cells:
  assumes "grid_shape W H g"
  shows "total_density g = (\<Sum>x<W. \<Sum>y<H. sum_list (g ! x ! y))"
proof -
  have "total_density g = (\<Sum>x<length g. sum_list (map sum_list (g ! x)))"
    unfolding total_density_def by (rule sum_list_map_nth)
  also have "\<dots> = (\<Sum>x<W. sum_list (map sum_list (g ! x)))"
    using assms by (simp add: grid_shape_def)
  also have "\<dots> = (\<Sum>x<W. \<Sum>y<H. sum_list (g ! x ! y))"
  proof (rule sum.cong)
    fix x assume "x \<in> {..<W}"
    then have "length (g ! x) = H" using assms by (simp add: grid_shape_nth)
    then show "sum_list (map sum_list (g ! x)) = (\<Sum>y<H. sum_list (g ! x ! y))"
      using sum_list_map_nth[of sum_list "g ! x"] by simp
  qed simp
  finally show ?thesis .
qed

subsection \<open>Streaming and bounce-back keep the total\<close>

lemma sum_shift_mod:
  fixes h :: "nat \<Rightarrow> real"
  shows "(\<Sum>x<W. h (nat ((int x - s) mod int W))) = (\<Sum>x<W. h x)"
proof (rule sum.reindex_bij_witness[where i = "\<lambda>x. nat ((int x + s) mod int W)"
      and j = "\<lambda>x. nat ((int x - s) mod int W)"])
  fix a assume "a \<in> {..<W}"
  then have a: "a < W" by simp
  then have W: "0 < int W" by simp
  have "int (nat ((int a - s) mod int W)) = (int a - s) mod int W" using W by simp
  then have "(int (nat ((int a - s) mod int W)) + s) mod int W = int a mod int W"
    by (simp add: mod_add_left_eq)
  then show "nat ((int (nat ((int a - s) mod int W)) + s) mod int W) = a"
    using a by simp
  show "nat ((int a - s) mod int W) \<in> {..<W}"
    using W by (simp add: nat_less_iff)
next
  fix b assume "b \<in> {..<W}"
  then have b: "b < W" by simp
  then have W: "0 < int W" by simp
  have "int (nat ((int b + s) mod int W)) = (int b + s) mod int W" using W by simp
  then have "(int (nat ((int b + s) mod int W)) - s) mod int W = int b mod int W"
    by (simp add: mod_diff_left_eq)
  then show "nat ((int (nat ((int b + s) mod int W)) - s) mod int W) = b"
    using b by simp
  show "nat ((int b + s) mod int W) \<in> {..<W}"
    using W by (simp add: nat_less_iff)
qed simp

lemma sum_list_nine:
  fixes cell :: "real list"
  assumes "length cell = 9"
  shows "sum_list cell = (\<Sum>i<9. cell ! i)"
  using sum_list_sum_nth[of cell] assms by (simp add: atLeast0LessThan)

lemma total_density_index:
  assumes "field_shape W H g"
  shows "total_density g = (\<Sum>i<9. \<Sum>x<W. \<Sum>y<H. g ! x ! y ! i)"
proof -
  have "total_density g = (\<Sum>x<W. \<Sum>y<H. sum_list (g ! x ! y))"
    using assms by (intro total_density_cells field_shape_grid)
  also have "\<dots> = (\<Sum>x<W. \<Sum>y<H. \<Sum>i<9. g ! x ! y ! i)"
    using assms by (intro sum.cong refl sum_list_nine field_shape_nth) simp_all
  also have "\<dots> = (\<Sum>x<W. \<Sum>i<9. \<Sum>y<H. g ! x ! y ! i)"
    by (intro sum.cong refl sum.swap)
  also have "\<dots> = (\<Sum>i<9. \<Sum>x<W. \<Sum>y<H. g ! x ! y ! i)"
    by (rule sum.swap)
  finally show ?thesis .
qed

lemma streaming_total:
  assumes "field_shape W H g"
  shows "total_density (streaming g) = total_density g"
proof -
  have "total_density (streaming g) = (\<Sum>i<9. \<Sum>x<W. \<Sum>y<H. streaming g ! x ! y ! i)"
    using assms by (intro total_density_index streaming_shape)
  also have "\<dots> = (\<Sum>i<9. \<Sum>x<W. \<Sum>y<H.
                       g ! nat ((int x - fst (c ! i)) mod int W)
                         ! nat ((int y - snd (c ! i)) mod int H) ! i)"
    using assms by (intro sum.cong refl streaming_nth) simp_all
  also have "\<dots> = (\<Sum>i<9. \<Sum>x<W. \<Sum>y<H.
                       g ! nat ((int x - fst (c ! i)) mod int W) ! y ! i)"
    by (intro sum.cong refl sum_shift_mod[where h = "\<lambda>y. g ! _ ! y ! _"])
  also have "\<dots> = (\<Sum>i<9. \<Sum>x<W. \<Sum>y<H. g ! x ! y ! i)"
    by (intro sum.cong refl sum_shift_mod[where h = "\<lambda>x. \<Sum>y<H. g ! x ! y ! _"])
  also have "\<dots> = total_density g"
    using assms by (rule total_density_index[symmetric])
  finally show ?thesis .
qed

lemma opposite_sum:
  fixes cell :: "real list"
  assumes "length cell = 9"
  shows "sum_list (map (\<lambda>i. cell ! opposite i) [0..<9]) = sum_list cell"
proof -
  have "cell = map ((!) cell) [0..<9]" using map_nth[of cell] assms by simp
  then have "sum_list cell = sum_list (map ((!) cell) [0..<9])" by simp
  then show ?thesis by (simp add: upt9 eval_nat_numeral)
qed

lemma bounce_back_simps:
  "width (bounce_back s) = width s"
  "height (bounce_back s) = height s"
  "wall (bounce_back s) = wall s"
  "inlet (bounce_back s) = inlet s"
  "outlet (bounce_back s) = outlet s"
  "rho (bounce_back s) = rho s"
  "cssq (bounce_back s) = cssq s"
  "tau (bounce_back s) = tau s"
  by (simp_all add: bounce_back_def Let_def)

lemma bounce_back_f_nth:
  assumes "grid_shape (width s) (height s) (wall s)"
    and "grid_shape (width s) (height s) (f s)"
    and "x < width s" and "y < height s"
  shows "f (bounce_back s) ! x ! y =
           (if wall s ! x ! y then map (\<lambda>i. f s ! x ! y ! opposite i) [0..<9] else f s ! x ! y)"
proof -
  have perm: "(\<lambda>cell. map (\<lambda>j. cell ! j) [0, 3, 4, 1, 2, 7, 8, 5, 6])
                = (\<lambda>cell :: real list. map (\<lambda>i. cell ! opposite i) [0..<9])"
    by (simp add: upt9 eval_nat_numeral)
  show ?thesis
    unfolding bounce_back_def Let_def perm
    using mask_set_map_get[OF assms] by simp
qed

lemma bounce_back_velocity_nth:
  assumes "grid_shape (width s) (height s) (wall s)"
    and "grid_shape (width s) (height s) (ux s)"
    and "grid_shape (width s) (height s) (uy s)"
    and "x < width s" and "y < height s"
  shows "ux (bounce_back s) ! x ! y = (if wall s ! x ! y then 0 else ux s ! x ! y)"
    and "uy (bounce_back s) ! x ! y = (if wall s ! x ! y then 0 else uy s ! x ! y)"
  unfolding bounce_back_def Let_def
  using mask_fill_nth[OF assms(1,2,4,5)] mask_fill_nth[OF assms(1,3,4,5)] by simp_all

lemma bounce_back_f_grid:
  assumes "grid_shape (width s) (height s) (wall s)"
    and "grid_shape (width s) (height s) (f s)"
  shows "grid_shape (width s) (height s) (f (bounce_back s))"
  unfolding bounce_back_def Let_def
  using mask_set_map_get_shape[OF assms] by simp

lemma bounce_back_total:
  assumes "grid_shape (width s) (height s) (wall s)"
    and "field_shape (width s) (height s) (f s)"
  shows "total_density (f (bounce_back s)) = total_density (f s)"
proof -
  have g: "grid_shape (width s) (height s) (f s)" using assms(2) by (rule field_shape_grid)
  have cell: "sum_list (f (bounce_back s) ! x ! y) = sum_list (f s ! x ! y)"
    if "x < width s" "y < height s" for x y
    using bounce_back_f_nth[OF assms(1) g that] opposite_sum[OF field_shape_nth[OF assms(2) that]]
    by simp
  have "total_density (f (bounce_back s))
          = (\<Sum>x<width s. \<Sum>y<height s. sum_list (f (bounce_back s) ! x ! y))"
    using assms(1) g by (intro total_density_cells bounce_back_f_grid)
  also have "\<dots> = (\<Sum>x<width s. \<Sum>y<height s. sum_list (f s ! x ! y))"
    by (intro sum.cong refl cell) simp_all
  also have "\<dots> = total_density (f s)"
    using g by (rule total_density_cells[symmetric])
  finally show ?thesis .
qed

subsection \<open>Handlers on empty masks\<close>

lemma all_false_concat:
  assumes "grid_shape W H m" and "\<forall>x<W. \<forall>y<H. \<not> m ! x ! y"
  shows "True \<notin> set (concat m)"
proof
  assume "True \<in> set (concat m)"
  then obtain row where row: "row \<in> set m" "True \<in> set row" by auto
  from row(1) obtain x where x: "x < length m" "row = m ! x" by (auto simp: in_set_conv_nth)
  from row(2) obtain y where y: "y < length row" "row ! y = True"
    by (auto simp: in_set_conv_nth)
  have "x < W" "y < H" using x y assms(1) row(1) by (simp_all add: grid_shape_def)
  then show False using assms(2) x(2) y(2) by auto
qed

lemma mask_get_no_true: "True \<notin> set (concat m) \<Longrightarrow> mask_get m a = []"
  by (auto simp: mask_get_def filter_empty_conv dest: set_zip_leftD)

lemma get_equilibrium_empty: "get_equilibrium s 0 [] [] [] = []"
  using length_get_equilibrium[of "[]" 0 "[]" "[]" s] by simp

lemma mask_set_empty: "grid_shape W H a \<Longrightarrow> mask_set W H m a [] = a"
  by (simp add: mask_set_def mask_set_flat_empty reshape_concat)

lemma inlet_handler_id:
  assumes "True \<notin> set (concat (inlet s))" and "grid_shape (width s) (height s) (f s)"
  shows "inlet_handler s it = s"
  using assms
  by (simp add: inlet_handler_def Let_def mask_get_no_true get_equilibrium_empty mask_set_empty)

lemma outlet_handler_id:
  assumes "True \<notin> set (concat (outlet s))" and "grid_shape (width s) (height s) (f s)"
  shows "outlet_handler s = s"
  using assms
  by (simp add: outlet_handler_def Let_def mask_get_no_true get_equilibrium_empty mask_set_empty)

subsection \<open>One iteration\<close>

lemma lbm_iteration_InrD:
  assumes "lbm_iteration ih oh self it = Inr s'"
  shows "s' = oh (ih (bounce_back ((update_moments self)
                \<lparr>f := streaming (collision (tau self) (f self)
                                  (equilibrium_field (update_moments self)))\<rparr>)) it)"
  using assms
  by (auto simp: lbm_iteration_def Let_def update_moments_simps split: option.splits if_splits)

lemma collision_total:
  assumes "field_shape (width self) (height self) (f self)" and "cssq self = 1 / 3"
  shows "total_density (collision t (f self) (equilibrium_field (update_moments self)))
           = total_density (f self)"
proof -
  let ?W = "width self" and ?H = "height self" and ?s1 = "update_moments self"
  have dims: "width ?s1 = ?W" "height ?s1 = ?H" by (simp_all add: update_moments_simps)
  have sh: "grid_shape (width ?s1) (height ?s1) (rho ?s1)"
    "grid_shape (width ?s1) (height ?s1) (ux ?s1)"
    "grid_shape (width ?s1) (height ?s1) (uy ?s1)"
    unfolding dims using assms(1) by (rule update_moments_shapes)+
  have cs: "cssq ?s1 = 1 / 3" using assms(2) by (simp add: update_moments_simps)
  have eqs: "field_shape ?W ?H (equilibrium_field ?s1)"
    using equilibrium_field_shape[OF sh] by (simp only: dims)
  have eq_sum: "sum_list (equilibrium_field ?s1 ! x ! y) = sum_list (f self ! x ! y)"
    if "x < ?W" "y < ?H" for x y
  proof -
    have "equilibrium_field ?s1 ! x ! y =
            map (f_eq_spec (rho ?s1 ! x ! y) (ux ?s1 ! x ! y) (uy ?s1 ! x ! y)) [0..<9]"
      using cs sh that by (intro equilibrium_field_nth_spec) (simp_all add: dims)
    then have "sum_list (equilibrium_field ?s1 ! x ! y) = rho ?s1 ! x ! y"
      by (simp only: f_eq_spec_sum)
    then show ?thesis using update_moments_rho_nth[OF assms(1) that] by simp
  qed
  have cell: "sum_list (collision t (f self) (equilibrium_field ?s1) ! x ! y)
                = sum_list (f self ! x ! y)" if "x < ?W" "y < ?H" for x y
    using collision_cell_sum[OF assms(1) eqs that, of t] eq_sum[OF that]
    by (simp add: algebra_simps)
  have "total_density (collision t (f self) (equilibrium_field ?s1))
          = (\<Sum>x<?W. \<Sum>y<?H. sum_list (collision t (f self) (equilibrium_field ?s1) ! x ! y))"
    using assms(1) eqs by (intro total_density_cells field_shape_grid collision_shape)
  also have "\<dots> = (\<Sum>x<?W. \<Sum>y<?H. sum_list (f self ! x ! y))"
    by (intro sum.cong refl cell) simp_all
  also have "\<dots> = total_density (f self)"
    using assms(1) by (intro total_density_cells[symmetric] field_shape_grid)
  finally show ?thesis .
qed

text \<open>
  Claim C6. When the inlet mask and the outlet mask are false everywhere and the default
  handlers are used, a call of \<open>lbm_iteration\<close> that does not abort leaves the total density,
  the sum of \<open>f\<close> over all cells and directions, unchanged (the model is one that
  \<^verbatim>\<open>__init__\<close> builds: well shaped, with \<open>cssq = 1/3\<close>).
\<close>

theorem mass_conservation:
  assumes "wf_lbm self" and "cssq self = 1 / 3"
    and "\<forall>x<width self. \<forall>y<height self. \<not> inlet self ! x ! y \<and> \<not> outlet self ! x ! y"
    and "lbm_iteration inlet_handler outlet_handler self it = Inr self'"
  shows "total_density (f self') = total_density (f self)"
proof -
  let ?W = "width self" and ?H = "height self" and ?s1 = "update_moments self"
  let ?coll = "collision (tau self) (f self) (equilibrium_field ?s1)"
  let ?s3 = "?s1\<lparr>f := streaming ?coll\<rparr>"
  let ?s4 = "bounce_back ?s3"
  have fs: "field_shape ?W ?H (f self)" and wl: "grid_shape ?W ?H (wall self)"
    and il: "grid_shape ?W ?H (inlet self)" and ol: "grid_shape ?W ?H (outlet self)"
    using assms(1) by (simp_all add: wf_lbm_def)
  have dims: "width ?s1 = ?W" "height ?s1 = ?H" by (simp_all add: update_moments_simps)
  have sh: "grid_shape (width ?s1) (height ?s1) (rho ?s1)"
    "grid_shape (width ?s1) (height ?s1) (ux ?s1)"
    "grid_shape (width ?s1) (height ?s1) (uy ?s1)"
    unfolding dims using fs by (rule update_moments_shapes)+
  have eqs: "field_shape ?W ?H (equilibrium_field ?s1)"
    using equilibrium_field_shape[OF sh] by (simp only: dims)
  have cshape: "field_shape ?W ?H ?coll" using fs eqs by (rule collision_shape)
  have s3f: "field_shape (width ?s3) (height ?s3) (f ?s3)"
    using streaming_shape[OF cshape] by (simp add: update_moments_simps)
  have s3w: "grid_shape (width ?s3) (height ?s3) (wall ?s3)"
    using wl by (simp add: update_moments_simps)
  have s4g: "grid_shape (width ?s4) (height ?s4) (f ?s4)"
    using bounce_back_f_grid[OF s3w field_shape_grid[OF s3f]] by (simp add: bounce_back_simps)
  have no_in: "True \<notin> set (concat (inlet ?s4))"
    using all_false_concat[OF il] assms(3) by (simp add: bounce_back_simps update_moments_simps)
  have no_out: "True \<notin> set (concat (outlet ?s4))"
    using all_false_concat[OF ol] assms(3) by (simp add: bounce_back_simps update_moments_simps)
  have "self' = outlet_handler (inlet_handler ?s4 it)"
    using assms(4) by (rule lbm_iteration_InrD)
  also have "\<dots> = ?s4"
    using no_in no_out s4g by (simp add: inlet_handler_id outlet_handler_id)
  finally have "total_density (f self') = total_density (f ?s4)" by simp
  also have "\<dots> = total_density (f ?s3)" using s3w s3f by (rule bounce_back_total)
  also have "\<dots> = total_density (streaming ?coll)" by simp
  also have "\<dots> = total_density ?coll" using cshape by (rule streaming_total)
  also have "\<dots> = total_density (f self)" using fs assms(2) by (rule collision_total)
  finally show ?thesis .
qed

subsection \<open>Bounce-back of the walls\<close>

lemma opposite_table: "map opposite [0..<9] = [0, 3, 4, 1, 2, 7, 8, 5, 6]"
  by (simp add: upt9 eval_nat_numeral)

text \<open>
  Claim C4. After the bounce-back block, a wall cell holds its former nine populations
  permuted by the opposite-direction map (pairs (1,3), (2,4), (5,7), (6,8) swapped, 0 fixed)
  and its velocity is \<open>(0, 0)\<close>; the populations of a cell that is not a wall are unchanged.
\<close>

theorem bounce_back_walls:
  assumes "wf_lbm self" and "x < width self" and "y < height self"
  shows "if wall self ! x ! y
         then f (bounce_back self) ! x ! y = map (\<lambda>i. f self ! x ! y ! opposite i) [0..<9] \<and>
              ux (bounce_back self) ! x ! y = 0 \<and> uy (bounce_back self) ! x ! y = 0
         else f (bounce_back self) ! x ! y = f self ! x ! y"
proof -
  let ?W = "width self" and ?H = "height self"
  have wl: "grid_shape ?W ?H (wall self)" and gu: "grid_shape ?W ?H (ux self)"
    and gv: "grid_shape ?W ?H (uy self)" and gf: "grid_shape ?W ?H (f self)"
    using assms(1) by (simp_all add: wf_lbm_def field_shape_def)
  show ?thesis
    using bounce_back_f_nth[OF wl gf assms(2,3)] bounce_back_velocity_nth[OF wl gu gv assms(2,3)]
    by simp
qed

theorem bounce_back_walls_witness:
  "wf_lbm (demo\<lparr>f := demo_f\<rparr>) \<and>
   f (bounce_back (demo\<lparr>f := demo_f\<rparr>)) ! 0 ! 0 = [0, 3, 4, 1, 2, 7, 8, 5, 6] \<and>
   ux (bounce_back (demo\<lparr>f := demo_f\<rparr>)) ! 0 ! 0 = 0 \<and>
   uy (bounce_back (demo\<lparr>f := demo_f\<rparr>)) ! 0 ! 0 = 0 \<and>
   f (bounce_back (demo\<lparr>f := demo_f\<rparr>)) ! 1 ! 1 =
     [110, 111, 112, 113, 114, 115, 116, 117, 118]"
proof -
  let ?s = "demo\<lparr>f := demo_f\<rparr>"
  have wf: "wf_lbm ?s"
    by (simp add: wf_lbm_def field_shape_def grid_shape_def demo_def demo_f_def)
  have dims: "width ?s = 2" "height ?s = 2" by (simp_all add: demo_def)
  have "(0::nat) < width ?s" "(0::nat) < height ?s" "(1::nat) < width ?s" "(1::nat) < height ?s"
    by (simp_all add: dims)
  from bounce_back_walls[OF wf this(1,2)] bounce_back_walls[OF wf this(3,4)] wf
  show ?thesis
    by (simp add: demo_def demo_f_def upt9 eval_nat_numeral)
qed

subsection \<open>Minimum and first index\<close>

lemma np_min_Some: "xs \<noteq> [] \<Longrightarrow> np_min xs = Some (Min (set xs))"
proof (cases xs)
  case Nil
  assume "xs \<noteq> []"
  with Nil show ?thesis by simp
next
  case (Cons a list)
  have "fold min list a = Min (set (a # list))" by (rule Min.set_eq_fold[symmetric])
  then show ?thesis unfolding Cons np_min_def by (simp only: list.case)
qed

lemma np_min_None: "np_min xs = None \<longleftrightarrow> xs = []"
  by (cases xs) (simp_all add: np_min_def)




subsection \<open>Flat indices of a field\<close>

lemma concat_field_shape:
  assumes "field_shape W H g"
  shows "grid_shape (W * H) 9 (concat g)"
  using assms length_concat_grid[OF field_shape_grid[OF assms]]
  by (auto simp: grid_shape_def field_shape_def)

lemma flat_field_length:
  "field_shape W H g \<Longrightarrow> length (concat (concat g)) = W * H * 9"
  by (rule length_concat_grid[OF concat_field_shape])






subsection \<open>The stability assertion\<close>

lemma flat_field_nonempty:
  assumes "field_shape W H g" "0 < W" "0 < H"
  shows "concat (concat g) \<noteq> []"
proof -
  have "0 < W * H * 9" using assms(2,3) by simp
  then have "0 < length (concat (concat g))" by (simp only: flat_field_length[OF assms(1)])
  then show ?thesis unfolding length_greater_0_conv .
qed

lemma lbm_iteration_unfold:
  assumes "wf_lbm self"
  shows "lbm_iteration ih oh self it =
     (let s1 = update_moments self; eq_flat = concat (concat (equilibrium_field s1))
      in if 0 \<in> set (concat (rho s1)) \<or> \<not> 0 \<le> Min (set eq_flat)
         then Inl (AssertionError
                     (unravel_index (the (failing_index (concat (rho s1)) eq_flat))
                        (width self, height self, 9)), s1, nan_cells (rho s1))
         else if tau self = 0 then Inl (ZeroDivisionError, s1, nan_cells (rho s1))
         else Inr (oh (ih (bounce_back (s1\<lparr>f := streaming (collision (tau self) (f self)
                                                  (equilibrium_field s1))\<rparr>)) it)))"
proof -
  let ?s1 = "update_moments self"
  have fs: "field_shape (width self) (height self) (f self)"
    and pos: "0 < width self" "0 < height self"
    using assms by (simp_all add: wf_lbm_def)
  have dims: "width ?s1 = width self" "height ?s1 = height self"
    by (simp_all add: update_moments_simps)
  have sh: "grid_shape (width ?s1) (height ?s1) (rho ?s1)"
    "grid_shape (width ?s1) (height ?s1) (ux ?s1)"
    "grid_shape (width ?s1) (height ?s1) (uy ?s1)"
    unfolding dims using fs by (rule update_moments_shapes)+
  have "field_shape (width self) (height self) (equilibrium_field ?s1)"
    using equilibrium_field_shape[OF sh] by (simp only: dims)
  then have "concat (concat (equilibrium_field ?s1)) \<noteq> []"
    using pos by (rule flat_field_nonempty)
  then have "np_min (concat (concat (equilibrium_field ?s1)))
               = Some (Min (set (concat (concat (equilibrium_field ?s1)))))"
    by (rule np_min_Some)
  then show ?thesis
    by (simp add: lbm_iteration_def Let_def update_moments_simps Q_def)
qed






subsection \<open>The iteration on the small models\<close>

lemma wf_demo: "wf_lbm demo"
  by (simp add: wf_lbm_def field_shape_def grid_shape_def demo_def w_def)










subsection \<open>One iteration of the stirred model\<close>

lemma wf_stirred: "wf_lbm stirred"
  by (simp add: wf_lbm_def field_shape_def grid_shape_def stirred_def demo_def demo_f_def)

lemma moments_stirred:
  "update_moments stirred =
     stirred\<lparr>rho := [[36, 126], [936, 1026]],
             ux := [[- (1 / 18), - (1 / 63)], [- (1 / 468), - (1 / 513)]],
             uy := [[- (1 / 6), - (1 / 21)], [- (1 / 156), - (1 / 171)]]\<rparr>"
  by (simp add: update_moments_def moment_update_def stirred_def demo_def demo_f_def c_def Let_def)

lemma equilibrium_stirred:
  "equilibrium_field (update_moments stirred) =
     [[[412 / 27, 173 / 54, 125 / 54, 245 / 54, 341 / 54, 55 / 108, 73 / 108,
        199 / 108, 145 / 108],
       [10544 / 189, 359 / 27, 2285 / 189, 395 / 27, 3041 / 189, 545 / 189,
        599 / 189, 797 / 189, 725 / 189]],
      [[146006 / 351, 145073 / 1404, 143225 / 1404, 146945 / 1404,
        148841 / 1404, 71155 / 2808, 72073 / 2808, 74899 / 2808, 73945 / 2808],
       [701744 / 1539, 174413 / 1539, 172385 / 1539, 176465 / 1539,
        178541 / 1539, 2255 / 81, 43349 / 1539, 2363 / 81, 44375 / 1539]]]"
  unfolding moments_stirred
  by (simp add: equilibrium_field_def get_equilibrium_def reshape_def Q_def upt_rec zeros_def
      set_column_def c_def w_def Let_def power2_eq_square stirred_def demo_def eval_nat_numeral)

lemma collision_stirred:
  "collision 2 demo_f (equilibrium_field (update_moments stirred)) =
     [[[206 / 27, 227 / 108, 233 / 108, 407 / 108, 557 / 108, 595 / 216,
        721 / 216, 955 / 216, 1009 / 216],
       [6217 / 189, 328 / 27, 4553 / 378, 373 / 27, 5687 / 378, 1690 / 189,
        3623 / 378, 2005 / 189, 4127 / 378]],
      [[90553 / 351, 286877 / 2808, 286433 / 2808, 291557 / 2808, 294857 / 2808,
        365995 / 5616, 369721 / 5616, 375355 / 5616, 377209 / 5616],
       [435517 / 1539, 172621 / 1539, 344753 / 3078, 175186 / 1539,
        353987 / 3078, 5785 / 81, 221873 / 3078, 5920 / 81, 225977 / 3078]]]"
  unfolding equilibrium_stirred by (simp add: collision_def demo_f_def)

lemma streaming_stirred:
  "streaming (collision 2 demo_f (equilibrium_field (update_moments stirred))) =
     [[[206 / 27, 286877 / 2808, 4553 / 378, 291557 / 2808, 5687 / 378,
        5785 / 81, 221873 / 3078, 5920 / 81, 225977 / 3078],
       [6217 / 189, 172621 / 1539, 233 / 108, 175186 / 1539, 557 / 108,
        365995 / 5616, 369721 / 5616, 375355 / 5616, 377209 / 5616]],
      [[90553 / 351, 227 / 108, 344753 / 3078, 407 / 108, 353987 / 3078,
        1690 / 189, 3623 / 378, 2005 / 189, 4127 / 378],
       [435517 / 1539, 328 / 27, 286433 / 2808, 373 / 27, 294857 / 2808,
        595 / 216, 721 / 216, 955 / 216, 1009 / 216]]]"
  unfolding collision_stirred
  by (simp add: streaming_def set_dir_def get_dir_def np_roll2_def np_roll_def c_def Q_def
      upt_rec Let_def)

lemma bounce_stirred:
  "f (bounce_back ((update_moments stirred)
        \<lparr>f := streaming (collision (tau stirred) (f stirred)
                          (equilibrium_field (update_moments stirred)))\<rparr>)) =
     [[[206 / 27, 291557 / 2808, 5687 / 378, 286877 / 2808, 4553 / 378,
        5920 / 81, 225977 / 3078, 5785 / 81, 221873 / 3078],
       [6217 / 189, 172621 / 1539, 233 / 108, 175186 / 1539, 557 / 108,
        365995 / 5616, 369721 / 5616, 375355 / 5616, 377209 / 5616]],
      [[90553 / 351, 227 / 108, 344753 / 3078, 407 / 108, 353987 / 3078,
        1690 / 189, 3623 / 378, 2005 / 189, 4127 / 378],
       [435517 / 1539, 328 / 27, 286433 / 2808, 373 / 27, 294857 / 2808,
        595 / 216, 721 / 216, 955 / 216, 1009 / 216]]]"
proof -
  have t: "tau stirred = 2" "f stirred = demo_f" by (simp_all add: stirred_def)
  show ?thesis
    unfolding t streaming_stirred
    unfolding moments_stirred
    by (simp add: bounce_back_def mask_get_def mask_set_def reshape_def mask_fill_def
        stirred_def demo_def Let_def eval_nat_numeral upt_rec)
qed

lemma run_stirred:
  "lbm_iteration inlet_handler outlet_handler stirred 0 =
     Inr (bounce_back ((update_moments stirred)
            \<lparr>f := streaming (collision (tau stirred) (f stirred)
                              (equilibrium_field (update_moments stirred)))\<rparr>))"
proof -
  let ?s4 = "bounce_back ((update_moments stirred)
            \<lparr>f := streaming (collision (tau stirred) (f stirred)
                              (equilibrium_field (update_moments stirred)))\<rparr>)"
  have stable: "\<not> (0 \<in> set (concat (rho (update_moments stirred))) \<or>
      \<not> 0 \<le> Min (set (concat (concat (equilibrium_field (update_moments stirred))))))"
    unfolding equilibrium_stirred unfolding moments_stirred by simp
  have t: "tau stirred \<noteq> 0" by (simp add: stirred_def)
  have run: "lbm_iteration inlet_handler outlet_handler stirred 0 =
      Inr (outlet_handler (inlet_handler ?s4 0))"
    unfolding lbm_iteration_unfold[OF wf_stirred] Let_def using stable t by simp
  have masks: "inlet ?s4 = [[False, False], [False, False]]"
    "outlet ?s4 = [[False, False], [False, False]]" "width ?s4 = 2" "height ?s4 = 2"
    by (simp_all add: bounce_back_simps update_moments_simps stirred_def demo_def)
  have g: "grid_shape (width ?s4) (height ?s4) (f ?s4)"
    unfolding bounce_stirred masks by (simp add: grid_shape_def)
  have "inlet_handler ?s4 0 = ?s4"
    using g by (intro inlet_handler_id) (simp_all add: masks)
  moreover have "outlet_handler ?s4 = ?s4"
    using g by (intro outlet_handler_id) (simp_all add: masks)
  ultimately show ?thesis using run by simp
qed

theorem mass_conservation_witness:
  "wf_lbm stirred \<and> cssq stirred = 1 / 3 \<and>
   inlet stirred = [[False, False], [False, False]] \<and>
   outlet stirred = [[False, False], [False, False]] \<and>
   f stirred ! 0 ! 1 = [10, 11, 12, 13, 14, 15, 16, 17, 18] \<and>
   total_density (f stirred) = 2124 \<and>
   (\<exists>s'. lbm_iteration inlet_handler outlet_handler stirred 0 = Inr s' \<and>
         f s' ! 0 ! 1 = [6217 / 189, 172621 / 1539, 233 / 108, 175186 / 1539, 557 / 108,
                         365995 / 5616, 369721 / 5616, 375355 / 5616, 377209 / 5616] \<and>
         total_density (f s') = 2124)"
proof -
  let ?s' = "bounce_back ((update_moments stirred)
        \<lparr>f := streaming (collision (tau stirred) (f stirred)
                          (equilibrium_field (update_moments stirred)))\<rparr>)"
  have cs: "cssq stirred = 1 / 3" by (simp add: stirred_def demo_def)
  have il: "inlet stirred = [[False, False], [False, False]]"
    and ol: "outlet stirred = [[False, False], [False, False]]"
    by (simp_all add: stirred_def demo_def)
  have masks: "\<forall>x<width stirred. \<forall>y<height stirred.
      \<not> inlet stirred ! x ! y \<and> \<not> outlet stirred ! x ! y"
    by (simp add: stirred_def demo_def less_Suc_eq eval_nat_numeral)
  have cell: "f stirred ! 0 ! 1 = [10, 11, 12, 13, 14, 15, 16, 17, 18]"
    by (simp add: stirred_def demo_f_def)
  have total: "total_density (f stirred) = 2124"
    by (simp add: total_density_def stirred_def demo_f_def)
  have moved: "f ?s' ! 0 ! 1 =
      [6217 / 189, 172621 / 1539, 233 / 108, 175186 / 1539, 557 / 108,
       365995 / 5616, 369721 / 5616, 375355 / 5616, 377209 / 5616]"
    unfolding bounce_stirred by simp
  from mass_conservation[OF wf_stirred cs masks run_stirred] total
  have "total_density (f ?s') = 2124" by simp
  with run_stirred moved
  have "\<exists>s'. lbm_iteration inlet_handler outlet_handler stirred 0 = Inr s' \<and>
         f s' ! 0 ! 1 = [6217 / 189, 172621 / 1539, 233 / 108, 175186 / 1539, 557 / 108,
                         365995 / 5616, 369721 / 5616, 375355 / 5616, 377209 / 5616] \<and>
         total_density (f s') = 2124"
    by (intro exI[of _ ?s'] conjI)
  with wf_stirred cs il ol cell total show ?thesis by (intro conjI)
qed

subsection \<open>The loop body for one particle\<close>

lemma particle_step_unfold:
  "particle_step nodes t i =
     (if length (particle_locations t) \<le> i then Inl IndexError
      else if i \<in> particles_exited t then Inr t
      else
        case np_index2 (susceptible t) (py_round (fst (particle_locations t ! i)))
               (py_round (snd (particle_locations t ! i))) of
          Inl e \<Rightarrow> Inl e
        | Inr True \<Rightarrow>
            (case record_infection nodes t i (fst (particle_locations t ! i))
                    (snd (particle_locations t ! i)) of
               Some t1 \<Rightarrow>
                 Inr (t1\<lparr>particles_exited := insert i (particles_exited t1),
                          particle_locations := (particle_locations t1)[i := (0, 0)]\<rparr>)
             | None \<Rightarrow>
                 Inr (t\<lparr>stdout := stdout t @ [''Idk!!!!!!!''],
                         particles_exited := insert i (particles_exited t),
                         particle_locations := (particle_locations t)[i := (0, 0)]\<rparr>))
        | Inr False \<Rightarrow>
            (case np_index2 (outlet t) (py_round (fst (particle_locations t ! i)))
                    (py_round (snd (particle_locations t ! i))) of
               Inl e \<Rightarrow> Inl e
             | Inr True \<Rightarrow>
                 if i < length (removed t) then
                   Inr (t\<lparr>removed := (removed t)[i := removed t ! i + 1],
                           particles_exited := insert i (particles_exited t),
                           particle_locations := (particle_locations t)[i := (0, 0)]\<rparr>)
                 else Inl IndexError
             | Inr False \<Rightarrow>
                 (case interpolate (width t) (height t) (ux t) (fst (particle_locations t ! i))
                         (snd (particle_locations t ! i)) of
                    Inl e \<Rightarrow> Inl e
                  | Inr dx0 \<Rightarrow>
                      (case interpolate (width t) (height t) (uy t)
                              (fst (particle_locations t ! i))
                              (snd (particle_locations t ! i)) of
                         Inl e \<Rightarrow> Inl e
                       | Inr dy0 \<Rightarrow>
                           Inr (t\<lparr>particle_locations := (particle_locations t)
                                  [i := (min (max 0 (fst (particle_locations t ! i)
                                                      + map_scaling_factor t * dx0))
                                           (real (width t) - 1),
                                         min (max 0 (snd (particle_locations t ! i)
                                                      + map_scaling_factor t * dy0))
                                           (real (height t) - 1))]\<rparr>)))))"
  by (simp add: particle_step_def case_prod_beta Let_def
      split: sum.splits bool.splits option.splits)

lemma particle_step_exited: 
  "i < length (particle_locations t) \<Longrightarrow> i \<in> particles_exited t \<Longrightarrow>
   particle_step nodes t i = Inr t"
  by (simp add: particle_step_unfold)

lemma record_infection_SomeD:
  assumes "record_infection nodes t i x y = Some t1"
  shows "\<exists>closest. closest_node nodes (py_int x, py_int y) = Some closest \<and>
           closest < length (infections t) \<and> i < length (infections t ! closest) \<and>
           t1 = t\<lparr>infections := (infections t)
                   [closest := (infections t ! closest)[i := infections t ! closest ! i + 1]]\<rparr>"
  using assms by (auto simp: record_infection_def split: option.splits if_splits)

lemma nth_update_row:
  "xs[a := (xs ! a)[i := v]] ! k ! j = (if k = a \<and> a < length xs \<and> j = i \<and> i < length (xs ! a) then v else xs ! k ! j)"
  by (cases "k = a"; cases "a < length xs"; cases "j = i"; cases "i < length (xs ! a)")
     (simp_all add: nth_list_update list_update_beyond not_less)

lemma length_update_row:
  "length (xs[a := (xs ! a)[i := v]] ! k) = length (xs ! k)"
  by (cases "k = a"; cases "a < length xs")
     (simp_all add: nth_list_update list_update_beyond not_less)

lemma particle_step_frame:
  assumes "particle_step nodes t i = Inr t'"
  shows "frame {i} t t'"
proof -
  have len: "i < length (particle_locations t)"
    using assms by (simp add: particle_step_unfold split: if_splits)
  show ?thesis
  proof (cases "i \<in> particles_exited t")
    case True
    then have "t' = t" using assms len by (simp add: particle_step_exited)
    then show ?thesis by (auto simp: frame_def)
  next
    case False
    show ?thesis
      using assms len False
      by (auto simp: particle_step_unfold frame_def nth_update_row length_update_row
          dest!: record_infection_SomeD
          split: sum.splits bool.splits option.splits if_splits)
  qed
qed

lemma frame_refl: "frame S t t"
  by (simp add: frame_def)

lemma frame_trans:
  assumes "frame S t t'" "frame S' t' t''"
  shows "frame (S \<union> S') t t''"
  using assms unfolding frame_def by (auto; metis)

lemma frame_mono: "frame S t t' \<Longrightarrow> S \<subseteq> S' \<Longrightarrow> frame S' t t'"
  unfolding frame_def by blast

lemma particle_loop_frame:
  "particle_loop nodes t js = Inr t' \<Longrightarrow> frame (set js) t t'"
proof (induction js arbitrary: t)
  case Nil
  then show ?case by (simp add: frame_refl)
next
  case (Cons j js)
  from Cons.prems obtain t1 where step: "particle_step nodes t j = Inr t1"
    and rest: "particle_loop nodes t1 js = Inr t'"
    by (auto split: sum.splits)
  have "frame ({j} \<union> set js) t t'"
    using particle_step_frame[OF step] Cons.IH[OF rest] by (rule frame_trans)
  then show ?case by simp
qed

subsection \<open>Spawning\<close>

lemma np_where_bounds:
  assumes "p \<in> set (np_where m)"
  shows "fst p < length m \<and> snd p < length (m ! fst p)"
  using assms by (auto simp: np_where_def)

lemma spawn_loop_keeps:
  "spawn_loop k rnd t = Inr t1 \<Longrightarrow>
   particle_nr t \<le> particle_nr t1 \<and>
   width t1 = width t \<and> height t1 = height t \<and>
   map_scaling_factor t1 = map_scaling_factor t \<and>
   infected t1 = infected t \<and> susceptible t1 = susceptible t \<and> outlet t1 = outlet t \<and>
   ux t1 = ux t \<and> uy t1 = uy t \<and> spawn_rate t1 = spawn_rate t \<and>
   num_particles t1 = num_particles t \<and>
   length (particle_locations t1) = length (particle_locations t) \<and>
   infections t1 = infections t \<and> removed t1 = removed t \<and>
   particles_exited t1 = particles_exited t \<and> stdout t1 = stdout t \<and>
   (\<forall>j < particle_nr t. particle_locations t1 ! j = particle_locations t ! j)"
proof (induction k arbitrary: t)
  case 0
  then show ?case by simp
next
  case (Suc k)
  show ?case
  proof (cases "particle_nr t < num_particles t")
    case False
    then have "spawn_loop k rnd t = Inr t1" using Suc.prems by simp
    from Suc.IH[OF this] show ?thesis .
  next
    case True
    let ?ix = "np_where (infected t)"
    let ?p = "?ix ! (rnd (particle_nr t) mod length ?ix)"
    let ?t = "t\<lparr>particle_locations := (particle_locations t)
                   [particle_nr t := (real (fst ?p), real (snd ?p))],
                 particle_nr := particle_nr t + 1\<rparr>"
    have "spawn_loop k rnd ?t = Inr t1"
      using Suc.prems True by (simp add: Let_def split: if_splits)
    from Suc.IH[OF this] show ?thesis by (auto simp: nth_list_update)
  qed
qed

lemma spawn_loop_wf:
  "wf_particles nodes t \<Longrightarrow> spawn_loop k rnd t = Inr t1 \<Longrightarrow> wf_particles nodes t1"
proof (induction k arbitrary: t)
  case 0
  then show ?case by simp
next
  case (Suc k)
  show ?case
  proof (cases "particle_nr t < num_particles t")
    case False
    then have "spawn_loop k rnd t = Inr t1" using Suc.prems by simp
    from Suc.IH[OF Suc.prems(1) this] show ?thesis .
  next
    case True
    let ?ix = "np_where (infected t)"
    let ?p = "?ix ! (rnd (particle_nr t) mod length ?ix)"
    let ?t = "t\<lparr>particle_locations := (particle_locations t)
                   [particle_nr t := (real (fst ?p), real (snd ?p))],
                 particle_nr := particle_nr t + 1\<rparr>"
    have run: "spawn_loop k rnd ?t = Inr t1"
      using Suc.prems True by (simp add: Let_def split: if_splits)
    have "wf_particles nodes ?t"
      using Suc.prems(1) True by (simp add: wf_particles_def)
    from Suc.IH[OF this run] show ?thesis .
  qed
qed

lemma spawn_loop_in_bounds:
  "wf_particles nodes t \<Longrightarrow> in_bounds t \<Longrightarrow> spawn_loop k rnd t = Inr t1 \<Longrightarrow> in_bounds t1"
proof (induction k arbitrary: t)
  case 0
  then show ?case by simp
next
  case (Suc k)
  show ?case
  proof (cases "particle_nr t < num_particles t")
    case False
    then have "spawn_loop k rnd t = Inr t1" using Suc.prems by simp
    from Suc.IH[OF Suc.prems(1,2) this] show ?thesis .
  next
    case True
    let ?ix = "np_where (infected t)"
    let ?p = "?ix ! (rnd (particle_nr t) mod length ?ix)"
    let ?t = "t\<lparr>particle_locations := (particle_locations t)
                   [particle_nr t := (real (fst ?p), real (snd ?p))],
                 particle_nr := particle_nr t + 1\<rparr>"
    have ne: "?ix \<noteq> []" using Suc.prems(3) True by (auto simp: Let_def split: if_splits)
    have run: "spawn_loop k rnd ?t = Inr t1"
      using Suc.prems True by (simp add: Let_def split: if_splits)
    have wf: "wf_particles nodes ?t"
      using Suc.prems(1) True by (simp add: wf_particles_def)
    have "?p \<in> set ?ix" using ne by simp
    then have p: "fst ?p < length (infected t)" "snd ?p < length (infected t ! fst ?p)"
      using np_where_bounds by blast+
    have shape: "grid_shape (width t) (height t) (infected t)"
      using Suc.prems(1) by (simp add: wf_particles_def)
    have px: "fst ?p < width t" using p(1) shape by (simp add: grid_shape_def)
    then have py: "snd ?p < height t" using p(2) shape by (simp add: grid_shape_nth)
    have len: "particle_nr t < length (particle_locations t)"
      using Suc.prems(1) True by (simp add: wf_particles_def)
    have "in_bounds ?t"
      unfolding in_bounds_def
    proof (intro allI impI)
      fix i assume "i < particle_nr ?t"
      then have "i < particle_nr t \<or> i = particle_nr t" by auto
      then show "0 \<le> fst (particle_locations ?t ! i) \<and>
        fst (particle_locations ?t ! i) \<le> real (width ?t) - 1 \<and>
        0 \<le> snd (particle_locations ?t ! i) \<and>
        snd (particle_locations ?t ! i) \<le> real (height ?t) - 1"
      proof
        assume "i < particle_nr t"
        then show ?thesis using Suc.prems(2) by (simp add: in_bounds_def nth_list_update)
      next
        assume "i = particle_nr t"
        then show ?thesis using len px py by simp
      qed
    qed
    from Suc.IH[OF wf this run] show ?thesis .
  qed
qed

lemma spawn_loop_succeeds:
  "wf_particles nodes t \<Longrightarrow> np_where (infected t) \<noteq> [] \<or> num_particles t \<le> particle_nr t \<Longrightarrow>
   \<exists>t1. spawn_loop k rnd t = Inr t1"
proof (induction k arbitrary: t)
  case 0
  then show ?case by simp
next
  case (Suc k)
  show ?case
  proof (cases "particle_nr t < num_particles t")
    case False
    then show ?thesis using Suc.IH[OF Suc.prems] by simp
  next
    case True
    let ?ix = "np_where (infected t)"
    let ?p = "?ix ! (rnd (particle_nr t) mod length ?ix)"
    let ?t = "t\<lparr>particle_locations := (particle_locations t)
                   [particle_nr t := (real (fst ?p), real (snd ?p))],
                 particle_nr := particle_nr t + 1\<rparr>"
    have ne: "?ix \<noteq> []" using Suc.prems(2) True by simp
    have len: "particle_nr t < length (particle_locations t)"
      using Suc.prems(1) True by (simp add: wf_particles_def)
    have wf: "wf_particles nodes ?t"
      using Suc.prems(1) True by (simp add: wf_particles_def)
    have "np_where (infected ?t) \<noteq> [] \<or> num_particles ?t \<le> particle_nr ?t"
      using ne by simp
    from Suc.IH[OF wf this] show ?thesis
      using True ne len by (simp add: Let_def)
  qed
qed

subsection \<open>Terminal particles\<close>

lemma particle_loop_exited:
  assumes "i \<in> particles_exited t" and "particle_loop nodes t js = Inr t'"
  shows "i \<in> particles_exited t' \<and>
         particle_locations t' ! i = particle_locations t ! i \<and>
         (\<forall>k. infections t' ! k ! i = infections t ! k ! i) \<and>
         removed t' ! i = removed t ! i"
  using assms
proof (induction js arbitrary: t)
  case Nil
  then show ?case by simp
next
  case (Cons j js)
  from Cons.prems(2) obtain t1 where step: "particle_step nodes t j = Inr t1"
    and rest: "particle_loop nodes t1 js = Inr t'"
    by (auto split: sum.splits)
  have keep: "i \<in> particles_exited t1 \<and>
         particle_locations t1 ! i = particle_locations t ! i \<and>
         (\<forall>k. infections t1 ! k ! i = infections t ! k ! i) \<and>
         removed t1 ! i = removed t ! i"
  proof (cases "j = i")
    case True
    have "i < length (particle_locations t)"
      using step True by (simp add: particle_step_unfold split: if_splits)
    then have "t1 = t" using step True Cons.prems(1) by (simp add: particle_step_exited)
    then show ?thesis using Cons.prems(1) by simp
  next
    case False
    then show ?thesis
      using particle_step_frame[OF step] Cons.prems(1) by (auto simp: frame_def)
  qed
  then have "i \<in> particles_exited t1" by simp
  from Cons.IH[OF this rest] keep show ?case by simp
qed

lemma update_particles_exited:
  assumes "i \<in> particles_exited t" and "i < particle_nr t"
    and "update_particles nodes rnd t it = Inr t'"
  shows "i \<in> particles_exited t' \<and> i < particle_nr t' \<and>
         particle_locations t' ! i = particle_locations t ! i \<and>
         (\<forall>k. infections t' ! k ! i = infections t ! k ! i) \<and>
         removed t' ! i = removed t ! i"
proof -
  from assms(3) obtain t1 where spawn: "spawn_phase rnd t it = Inr t1"
    and loop: "particle_loop nodes t1 [0..<particle_nr t1] = Inr t'"
    by (auto simp: update_particles_def split: sum.splits)
  have keep1: "particle_nr t \<le> particle_nr t1 \<and> infections t1 = infections t \<and>
      removed t1 = removed t \<and> particles_exited t1 = particles_exited t \<and>
      (\<forall>j < particle_nr t. particle_locations t1 ! j = particle_locations t ! j)"
  proof (cases "it mod spawn_rate t = 0")
    case True
    then have "spawn_loop (spawn_amount_at_rate t) rnd t = Inr t1"
      using spawn by (simp add: spawn_phase_def split: if_splits)
    from spawn_loop_keeps[OF this] show ?thesis by simp
  next
    case False
    then have "t1 = t" using spawn by (simp add: spawn_phase_def split: if_splits)
    then show ?thesis by simp
  qed
  then have ex1: "i \<in> particles_exited t1" using assms(1) by simp
  have "particle_nr t' = particle_nr t1"
    using particle_loop_frame[OF loop] by (simp add: frame_def)
  with particle_loop_exited[OF ex1 loop] keep1 assms(2) show ?thesis by simp
qed

lemma run_particles_exited:
  assumes "i \<in> particles_exited t" and "i < particle_nr t"
    and "run_particles nodes rnd t its = Inr t'"
  shows "i \<in> particles_exited t' \<and> i < particle_nr t' \<and>
         particle_locations t' ! i = particle_locations t ! i \<and>
         (\<forall>k. infections t' ! k ! i = infections t ! k ! i) \<and>
         removed t' ! i = removed t ! i"
  using assms
proof (induction its arbitrary: t)
  case Nil
  then show ?case by simp
next
  case (Cons it its)
  from Cons.prems(3) obtain t1 where call: "update_particles nodes rnd t it = Inr t1"
    and rest: "run_particles nodes rnd t1 its = Inr t'"
    by (auto split: sum.splits)
  note one = update_particles_exited[OF Cons.prems(1,2) call]
  from one have "i \<in> particles_exited t1" "i < particle_nr t1" by simp_all
  from Cons.IH[OF this rest] one show ?case by simp
qed

text \<open>
  Claim C8. A particle that is terminal (a member of \<^verbatim>\<open>particles_exited\<close>, which is how
  the source records both Intercepted and Exited) stays terminal over any number of further
  calls of \<open>update_particles\<close> that return: its position is never written again, its column
  of the infection counters and its entry of the removed counters never change, and the loop
  body for it is the identity on the state.
\<close>

theorem terminal_is_final:
  assumes "i \<in> particles_exited self" and "i < particle_nr self"
    and "run_particles nodes rnd self its = Inr self'"
  shows "i \<in> particles_exited self' \<and>
         particle_locations self' ! i = particle_locations self ! i \<and>
         (\<forall>k. infections self' ! k ! i = infections self ! k ! i) \<and>
         removed self' ! i = removed self ! i \<and>
         (i < length (particle_locations self') \<longrightarrow> particle_step nodes self' i = Inr self')"
  using run_particles_exited[OF assms] by (simp add: particle_step_exited)

theorem terminal_is_final_witness:
  "0 \<in> particles_exited settled \<and> 0 < particle_nr settled \<and>
   run_particles demo_nodes (\<lambda>k. 0) settled [1, 2, 3] = Inr settled \<and>
   particle_locations settled ! 0 = (0, 0) \<and>
   particle_step demo_nodes settled 0 = Inr settled"
proof -
  have ex: "0 \<in> particles_exited settled" and nr: "0 < particle_nr settled"
    and len: "0 < length (particle_locations settled)"
    by (simp_all add: settled_def demo_def)
  have step: "particle_step demo_nodes settled 0 = Inr settled"
    using len ex by (rule particle_step_exited)
  have call: "update_particles demo_nodes (\<lambda>k. 0) settled it = Inr settled"
    if "it mod 20 \<noteq> 0" for it
  proof -
    have "spawn_phase (\<lambda>k. 0) settled it = Inr settled"
      using that by (simp add: spawn_phase_def settled_def demo_def)
    moreover have "[0..<particle_nr settled] = [0]" by (simp add: settled_def demo_def)
    ultimately show ?thesis by (simp add: update_particles_def step)
  qed
  have run: "run_particles demo_nodes (\<lambda>k. 0) settled [1, 2, 3] = Inr settled"
    by (simp add: call)
  from terminal_is_final[OF ex nr run] ex nr run step
  show ?thesis by (simp add: settled_def demo_def)
qed

end
